theory Spec2Isabelle
  imports Complex_Main "HOL-Library.Word" "HOL-Library.List_Lexorder" "HOL-Library.Log_Nat"
    "HOL-Library.Code_Target_Numeral"
begin

section \<open>Strings and numbers of the host language\<close>

text \<open>
  A JavaScript string is a sequence of 16-bit code units. String literals of the source
  are written \<open>js ''...''\<close>. Strings are compared as the language compares them: code unit
  by code unit, a proper prefix first (the lexicographic order on lists).
\<close>

type_synonym jsstring = "16 word list"

definition js :: "string \<Rightarrow> jsstring" where
  "js s = map of_char s"

text \<open>
  A Number is \<open>NaN\<close>, an infinity or a finite double, held as the rational it denotes.
  The two zeros are one value: the program only multiplies, adds and compares Numbers, and
  none of these tells the zeros apart.
\<close>

datatype jsnum = NaN | Num rat | PosInfinity | NegInfinity

text \<open>
  The Number value for a rational: the nearest double, ties to the even significand
  (roundTiesToEven of IEEE 754). \<open>floor_log2\<close> is the binary exponent of a positive rational,
  found from the bit lengths of numerator and denominator. A double has a significand of
  53 bits over a unit of \<open>2^(e - 52)\<close>; below \<open>2^-1022\<close> the unit stays \<open>2^-1074\<close>
  (subnormals), and a result of \<open>2^1024\<close> or more is an infinity.
\<close>

definition floor_log2 :: "rat \<Rightarrow> int" where
  "floor_log2 q =
     (let (p, d) = quotient_of q;
          e = bitlen p - bitlen d
      in if 2 powi e \<le> q then e else e - 1)"

definition round_ties_even :: "rat \<Rightarrow> int" where
  "round_ties_even q =
     (let f = \<lfloor>q\<rfloor>; r = q - of_int f
      in if r < 1 / 2 then f
         else if 1 / 2 < r then f + 1
         else if even f then f else f + 1)"

definition to_double :: "rat \<Rightarrow> jsnum" where
  "to_double q =
     (if q = 0 then Num 0
      else
        let a = \<bar>q\<bar>;
            e = max (floor_log2 a) (- 1022);
            u = 2 powi (e - 52);
            v = of_int (round_ties_even (a / u)) * u
        in if 2 powi 1024 \<le> v then (if 0 < q then PosInfinity else NegInfinity)
           else Num (if 0 < q then v else - v))"

text \<open>Product and sum of two Numbers: the exact result, rounded.\<close>

fun js_times :: "jsnum \<Rightarrow> jsnum \<Rightarrow> jsnum" where
  "js_times NaN _ = NaN"
| "js_times _ NaN = NaN"
| "js_times (Num a) (Num b) = to_double (a * b)"
| "js_times (Num a) PosInfinity = (if a = 0 then NaN else if 0 < a then PosInfinity else NegInfinity)"
| "js_times (Num a) NegInfinity = (if a = 0 then NaN else if 0 < a then NegInfinity else PosInfinity)"
| "js_times PosInfinity (Num b) = (if b = 0 then NaN else if 0 < b then PosInfinity else NegInfinity)"
| "js_times NegInfinity (Num b) = (if b = 0 then NaN else if 0 < b then NegInfinity else PosInfinity)"
| "js_times PosInfinity PosInfinity = PosInfinity"
| "js_times PosInfinity NegInfinity = NegInfinity"
| "js_times NegInfinity PosInfinity = NegInfinity"
| "js_times NegInfinity NegInfinity = PosInfinity"

fun js_plus :: "jsnum \<Rightarrow> jsnum \<Rightarrow> jsnum" where
  "js_plus NaN _ = NaN"
| "js_plus _ NaN = NaN"
| "js_plus (Num a) (Num b) = to_double (a + b)"
| "js_plus (Num a) PosInfinity = PosInfinity"
| "js_plus (Num a) NegInfinity = NegInfinity"
| "js_plus PosInfinity (Num b) = PosInfinity"
| "js_plus NegInfinity (Num b) = NegInfinity"
| "js_plus PosInfinity PosInfinity = PosInfinity"
| "js_plus PosInfinity NegInfinity = NaN"
| "js_plus NegInfinity PosInfinity = NaN"
| "js_plus NegInfinity NegInfinity = NegInfinity"

text \<open>\<open>a < b\<close> and \<open>a === b\<close> on Numbers: both are false as soon as one side is \<open>NaN\<close>.\<close>

fun js_less :: "jsnum \<Rightarrow> jsnum \<Rightarrow> bool" where
  "js_less NaN _ = False"
| "js_less _ NaN = False"
| "js_less (Num a) (Num b) = (a < b)"
| "js_less (Num a) PosInfinity = True"
| "js_less (Num a) NegInfinity = False"
| "js_less PosInfinity _ = False"
| "js_less NegInfinity (Num b) = True"
| "js_less NegInfinity PosInfinity = True"
| "js_less NegInfinity NegInfinity = False"

definition js_strict_eq :: "jsnum \<Rightarrow> jsnum \<Rightarrow> bool" where
  "js_strict_eq a b = (a \<noteq> NaN \<and> a = b)"

definition isNaN :: "jsnum \<Rightarrow> bool" where
  "isNaN x = (x = NaN)"

subsection \<open>\<open>Number(string)\<close>\<close>

text \<open>
  The conversion of a string to a Number (StringToNumber of the language standard): white
  space is trimmed; the empty string is 0; then a signed decimal literal (digits, fraction,
  exponent, \<open>Infinity\<close>) or an unsigned binary, octal or hexadecimal integer literal;
  everything else is \<open>NaN\<close>. The mathematical value of the literal is rounded to the nearest
  double. (For a decimal literal of more than 20 significant digits the standard also
  allows the rounding of the literal cut after the 20th digit; the engines round the exact
  value, as here.)
\<close>

definition is_str_whitespace :: "16 word \<Rightarrow> bool" where
  "is_str_whitespace c =
     (c \<in> {0x09, 0x0A, 0x0B, 0x0C, 0x0D, 0x20, 0xA0, 0x1680, 0x2028, 0x2029, 0x202F, 0x205F,
            0x3000, 0xFEFF}
      \<or> (0x2000 \<le> c \<and> c \<le> 0x200A))"

definition trim :: "jsstring \<Rightarrow> jsstring" where
  "trim s = rev (dropWhile is_str_whitespace (rev (dropWhile is_str_whitespace s)))"

definition is_digit :: "16 word \<Rightarrow> bool" where
  "is_digit c = (0x30 \<le> c \<and> c \<le> 0x39)"

text \<open>The value of a digit in a base up to 16, if the code unit is one.\<close>

definition digit_in :: "nat \<Rightarrow> 16 word \<Rightarrow> nat option" where
  "digit_in base c =
     (let v = (if 0x30 \<le> c \<and> c \<le> 0x39 then Some (unat c - 0x30)
               else if 0x41 \<le> c \<and> c \<le> 0x46 then Some (unat c - 0x41 + 10)
               else if 0x61 \<le> c \<and> c \<le> 0x66 then Some (unat c - 0x61 + 10)
               else None)
      in case v of None \<Rightarrow> None | Some d \<Rightarrow> if d < base then Some d else None)"

text \<open>A non-empty run of digits of the base, read as a number; \<open>None\<close> otherwise.\<close>

fun digits_from :: "nat \<Rightarrow> nat \<Rightarrow> jsstring \<Rightarrow> nat option" where
  "digits_from base acc [] = Some acc"
| "digits_from base acc (c # cs) =
     (case digit_in base c of
        None \<Rightarrow> None
      | Some d \<Rightarrow> digits_from base (base * acc + d) cs)"

definition digits_value :: "nat \<Rightarrow> jsstring \<Rightarrow> nat option" where
  "digits_value base s = (if s = [] then None else digits_from base 0 s)"

definition non_decimal_literal :: "jsstring \<Rightarrow> nat option" where
  "non_decimal_literal s =
     (case s of
        z # x # ds \<Rightarrow>
          if z \<noteq> 0x30 then None
          else if x = 0x78 \<or> x = 0x58 then digits_value 16 ds
          else if x = 0x6F \<or> x = 0x4F then digits_value 8 ds
          else if x = 0x62 \<or> x = 0x42 then digits_value 2 ds
          else None
      | _ \<Rightarrow> None)"

text \<open>The exponent part after \<open>e\<close> or \<open>E\<close>: an optional sign and digits.\<close>

definition signed_integer :: "jsstring \<Rightarrow> int option" where
  "signed_integer s =
     (case s of
        [] \<Rightarrow> None
      | c # cs \<Rightarrow>
          if c = 0x2B then map_option int (digits_value 10 cs)
          else if c = 0x2D then map_option (\<lambda>n. - int n) (digits_value 10 cs)
          else map_option int (digits_value 10 s))"

text \<open>The value of a run of decimal digits (0 for the empty run).\<close>

definition decimal_digits :: "jsstring \<Rightarrow> nat" where
  "decimal_digits s = foldl (\<lambda>acc c. 10 * acc + (unat c - 0x30)) 0 s"

definition scale10 :: "rat \<Rightarrow> int \<Rightarrow> rat" where
  "scale10 q e = (if 0 \<le> e then q * 10 ^ nat e else q / 10 ^ nat (- e))"

definition unsigned_decimal :: "jsstring \<Rightarrow> jsnum" where
  "unsigned_decimal s =
     (if s = js ''Infinity'' then PosInfinity
      else
        let ip = takeWhile is_digit s;
            r1 = dropWhile is_digit s;
            dot = (r1 \<noteq> [] \<and> hd r1 = 0x2E);
            fp = (if dot then takeWhile is_digit (tl r1) else []);
            r2 = (if dot then dropWhile is_digit (tl r1) else r1);
            ex = (if r2 = [] then Some 0
                  else if hd r2 = 0x65 \<or> hd r2 = 0x45 then signed_integer (tl r2)
                  else None)
        in if ip = [] \<and> fp = [] then NaN
           else case ex of
                  None \<Rightarrow> NaN
                | Some e \<Rightarrow>
                    to_double (scale10 (of_nat (decimal_digits ip)
                                         + of_nat (decimal_digits fp) / 10 ^ length fp) e))"

definition js_negate :: "jsnum \<Rightarrow> jsnum" where
  "js_negate x = (case x of NaN \<Rightarrow> NaN | Num q \<Rightarrow> Num (- q)
                  | PosInfinity \<Rightarrow> NegInfinity | NegInfinity \<Rightarrow> PosInfinity)"

definition Number :: "jsstring \<Rightarrow> jsnum" where
  "Number s =
     (let t = trim s in
      if t = [] then Num 0
      else case non_decimal_literal t of
             Some n \<Rightarrow> to_double (of_nat n)
           | None \<Rightarrow>
               if hd t = 0x2B then unsigned_decimal (tl t)
               else if hd t = 0x2D then js_negate (unsigned_decimal (tl t))
               else unsigned_decimal t)"

subsection \<open>\<open>String.prototype.split\<close> and \<open>includes\<close> with a one-character argument\<close>

fun split_on :: "16 word \<Rightarrow> jsstring \<Rightarrow> jsstring list" where
  "split_on sep [] = [[]]"
| "split_on sep (c # cs) =
     (if c = sep then [] # split_on sep cs
      else case split_on sep cs of
             [] \<Rightarrow> [[c]]
           | p # ps \<Rightarrow> (c # p) # ps)"

definition includes_char :: "jsstring \<Rightarrow> 16 word \<Rightarrow> bool" where
  "includes_char s c = (c \<in> set s)"

section \<open>Time helpers\<close>

text \<open>
  \<^verbatim>\<open>function toMinutes(timeStr)\<close>. The argument is a session's \<open>start\<close> or \<open>end\<close>
  field: a string, or missing (\<open>None\<close>: the field is absent or \<open>null\<close>). The result is
  \<open>None\<close> for \<open>null\<close>. The destructuring \<open>[h, m] = ...\<close> takes the first two fields of the
  split; a missing second field would be \<open>undefined\<close>, whose Number is \<open>NaN\<close>.
\<close>

definition colon :: "16 word" where
  "colon = 0x3A"

definition toMinutes :: "jsstring option \<Rightarrow> jsnum option" where
  "toMinutes timeStr =
     (case timeStr of
        None \<Rightarrow> None
      | Some s \<Rightarrow>
          if s = [] \<or> \<not> includes_char s colon then None
          else
            let parts = map Number (split_on colon s);
                h = (case parts of [] \<Rightarrow> NaN | x # _ \<Rightarrow> x);
                m = (case parts of _ # y # _ \<Rightarrow> y | _ \<Rightarrow> NaN)
            in if isNaN h \<or> isNaN m then None
               else Some (js_plus (js_times h (Num 60)) m))"

section \<open>Conflict detection\<close>

text \<open>
  The fields of a session that the conflict detector reads; \<open>end_time\<close> is the field
  \<open>end\<close>. A time is a string or is missing. (On a time of another kind, a number say,
  \<open>toMinutes\<close> would raise a TypeError at \<open>includes\<close>; the type leaves such values out.)
\<close>

record session =
  session_id :: jsstring
  start :: "jsstring option"
  end_time :: "jsstring option"

text \<open>\<^verbatim>\<open>function overlaps(a, b)\<close>\<close>

definition overlaps :: "session \<Rightarrow> session \<Rightarrow> bool" where
  "overlaps a b =
     (case (toMinutes (start a), toMinutes (end_time a),
            toMinutes (start b), toMinutes (end_time b)) of
        (Some aStart, Some aEnd, Some bStart, Some bEnd) \<Rightarrow>
          if js_strict_eq aStart aEnd \<or> js_strict_eq bStart bEnd then False
          else js_less aStart bEnd \<and> js_less bStart aEnd
      | _ \<Rightarrow> False)"

text \<open>
  A \<open>Set\<close> keeps its members in insertion order, each once. It is modelled as the list of
  its members in that order.
\<close>

definition Set_has :: "'a list \<Rightarrow> 'a \<Rightarrow> bool" where
  "Set_has s x = (x \<in> set s)"

definition Set_add :: "'a \<Rightarrow> 'a list \<Rightarrow> 'a list" where
  "Set_add x s = (if x \<in> set s then s else s @ [x])"

definition Set_delete :: "'a \<Rightarrow> 'a list \<Rightarrow> 'a list" where
  "Set_delete x s = removeAll x s"

definition new_Set :: "'a list \<Rightarrow> 'a list" where
  "new_Set xs = foldl (\<lambda>s x. Set_add x s) [] xs"

text \<open>
  \<^verbatim>\<open>function findConflicts(sessions)\<close>: the inner loop over \<open>j > i\<close> for a fixed
  \<open>sessions[i]\<close>, the outer loop over \<open>i\<close>, and the function.
\<close>

fun findConflicts_inner :: "session \<Rightarrow> session list \<Rightarrow> jsstring list \<Rightarrow> jsstring list" where
  "findConflicts_inner si [] conflicting = conflicting"
| "findConflicts_inner si (sj # rest) conflicting =
     findConflicts_inner si rest
       (if overlaps si sj
        then Set_add (session_id sj) (Set_add (session_id si) conflicting)
        else conflicting)"

fun findConflicts_outer :: "session list \<Rightarrow> jsstring list \<Rightarrow> jsstring list" where
  "findConflicts_outer [] conflicting = conflicting"
| "findConflicts_outer (si # rest) conflicting =
     findConflicts_outer rest (findConflicts_inner si rest conflicting)"

definition findConflicts :: "session list \<Rightarrow> jsstring list" where
  "findConflicts sessions = findConflicts_outer sessions []"

section \<open>Encoding helpers of the host\<close>

text \<open>The exceptions that the host functions used here can raise.\<close>

datatype exn = URIError | InvalidCharacterError | SyntaxError | SecurityError

text \<open>A result followed by more output, or the exception.\<close>

definition prepend :: "jsstring \<Rightarrow> exn + jsstring \<Rightarrow> exn + jsstring" where
  "prepend p r = (case r of Inl e \<Rightarrow> Inl e | Inr s \<Rightarrow> Inr (p @ s))"

definition is_high_surrogate :: "16 word \<Rightarrow> bool" where
  "is_high_surrogate c = (0xD800 \<le> c \<and> c \<le> 0xDBFF)"

definition is_low_surrogate :: "16 word \<Rightarrow> bool" where
  "is_low_surrogate c = (0xDC00 \<le> c \<and> c \<le> 0xDFFF)"

definition is_surrogate :: "16 word \<Rightarrow> bool" where
  "is_surrogate c = (is_high_surrogate c \<or> is_low_surrogate c)"

text \<open>
  A string is well formed when every surrogate stands in a pair, a high one followed by a
  low one (\<open>String.prototype.isWellFormed\<close>).
\<close>

fun well_formed :: "jsstring \<Rightarrow> bool" where
  "well_formed [] = True"
| "well_formed [c] = (\<not> is_high_surrogate c \<and> \<not> is_low_surrogate c)"
| "well_formed (c # d # cs) =
     (if is_high_surrogate c then is_low_surrogate d \<and> well_formed cs
      else \<not> is_low_surrogate c \<and> well_formed (d # cs))"

definition is_alnum :: "16 word \<Rightarrow> bool" where
  "is_alnum c = ((0x30 \<le> c \<and> c \<le> 0x39) \<or> (0x41 \<le> c \<and> c \<le> 0x5A) \<or> (0x61 \<le> c \<and> c \<le> 0x7A))"

definition hex_upper :: "nat \<Rightarrow> 16 word" where
  "hex_upper n = (if n < 10 then of_nat (0x30 + n) else of_nat (0x41 + (n - 10)))"

definition hex_lower :: "nat \<Rightarrow> 16 word" where
  "hex_lower n = (if n < 10 then of_nat (0x30 + n) else of_nat (0x61 + (n - 10)))"

subsection \<open>\<open>JSON.stringify\<close> on an array of strings\<close>

text \<open>
  QuoteJSONString: the short escapes, \<open>\uXXXX\<close> (lower-case digits) for the other control
  characters and for a surrogate without its partner, everything else as it is. A high
  surrogate followed by a low one is one code point and is copied.
\<close>

definition unicode_escape :: "16 word \<Rightarrow> jsstring" where
  "unicode_escape c =
     [0x5C, 0x75, hex_lower (unat c div 4096), hex_lower (unat c div 256 mod 16),
      hex_lower (unat c div 16 mod 16), hex_lower (unat c mod 16)]"

definition quote_unit :: "16 word \<Rightarrow> jsstring" where
  "quote_unit c =
     (if c = 0x08 then [0x5C, 0x62]
      else if c = 0x09 then [0x5C, 0x74]
      else if c = 0x0A then [0x5C, 0x6E]
      else if c = 0x0C then [0x5C, 0x66]
      else if c = 0x0D then [0x5C, 0x72]
      else if c = 0x22 then [0x5C, 0x22]
      else if c = 0x5C then [0x5C, 0x5C]
      else if c < 0x20 \<or> is_high_surrogate c \<or> is_low_surrogate c then unicode_escape c
      else [c])"

fun quote_body :: "jsstring \<Rightarrow> jsstring" where
  "quote_body [] = []"
| "quote_body [c] = quote_unit c"
| "quote_body (c # d # cs) =
     (if is_high_surrogate c \<and> is_low_surrogate d then c # d # quote_body cs
      else quote_unit c @ quote_body (d # cs))"

definition QuoteJSONString :: "jsstring \<Rightarrow> jsstring" where
  "QuoteJSONString s = 0x22 # quote_body s @ [0x22]"

fun join_comma :: "jsstring list \<Rightarrow> jsstring" where
  "join_comma [] = []"
| "join_comma [x] = x"
| "join_comma (x # y # ys) = x @ 0x2C # join_comma (y # ys)"

definition JSON_stringify :: "jsstring list \<Rightarrow> jsstring" where
  "JSON_stringify xs = 0x5B # join_comma (map QuoteJSONString xs) @ [0x5D]"

subsection \<open>UTF-8\<close>

text \<open>The code point of a surrogate pair, and the octets of a code point.\<close>

definition pair_code_point :: "16 word \<Rightarrow> 16 word \<Rightarrow> nat" where
  "pair_code_point hi lo = 0x10000 + (unat hi - 0xD800) * 0x400 + (unat lo - 0xDC00)"

definition utf8_octets :: "nat \<Rightarrow> nat list" where
  "utf8_octets cp =
     (if cp < 0x80 then [cp]
      else if cp < 0x800 then [0xC0 + cp div 64, 0x80 + cp mod 64]
      else if cp < 0x10000 then [0xE0 + cp div 4096, 0x80 + cp div 64 mod 64, 0x80 + cp mod 64]
      else [0xF0 + cp div 262144, 0x80 + cp div 4096 mod 64, 0x80 + cp div 64 mod 64,
            0x80 + cp mod 64])"

text \<open>UTF16EncodeCodePoint.\<close>

definition utf16_units :: "nat \<Rightarrow> jsstring" where
  "utf16_units cp =
     (if cp < 0x10000 then [of_nat cp]
      else [of_nat (0xD800 + (cp - 0x10000) div 0x400), of_nat (0xDC00 + (cp - 0x10000) mod 0x400)])"

subsection \<open>\<open>encodeURIComponent\<close> and \<open>unescape\<close>\<close>

definition uri_unreserved :: "16 word \<Rightarrow> bool" where
  "uri_unreserved c =
     (is_alnum c \<or> c \<in> {0x2D, 0x5F, 0x2E, 0x21, 0x7E, 0x2A, 0x27, 0x28, 0x29})"

definition percent_octet :: "nat \<Rightarrow> jsstring" where
  "percent_octet b = [0x25, hex_upper (b div 16), hex_upper (b mod 16)]"

text \<open>
  \<open>encodeURIComponent\<close> reads the string code point by code point and raises URIError at a
  surrogate without its partner.
\<close>

fun encodeURIComponent :: "jsstring \<Rightarrow> exn + jsstring" where
  "encodeURIComponent [] = Inr []"
| "encodeURIComponent (c # cs) =
     (if uri_unreserved c then prepend [c] (encodeURIComponent cs)
      else if is_high_surrogate c then
        (case cs of
           [] \<Rightarrow> Inl URIError
         | d # ds \<Rightarrow>
             if is_low_surrogate d
             then prepend (concat (map percent_octet (utf8_octets (pair_code_point c d))))
                    (encodeURIComponent ds)
             else Inl URIError)
      else if is_low_surrogate c then Inl URIError
      else prepend (concat (map percent_octet (utf8_octets (unat c)))) (encodeURIComponent cs))"

definition hex_value :: "16 word \<Rightarrow> nat option" where
  "hex_value c = digit_in 16 c"

definition is_hex :: "16 word \<Rightarrow> bool" where
  "is_hex c = (hex_value c \<noteq> None)"

definition hex_number :: "jsstring \<Rightarrow> nat" where
  "hex_number s = foldl (\<lambda>acc c. 16 * acc + (case hex_value c of None \<Rightarrow> 0 | Some d \<Rightarrow> d)) 0 s"

text \<open>
  \<open>unescape\<close>: \<open>%uXXXX\<close> and \<open>%XX\<close> become the code unit they name; every other code unit,
  a \<open>%\<close> that starts neither form included, is copied.
\<close>

fun unescape :: "jsstring \<Rightarrow> jsstring" where
  "unescape [] = []"
| "unescape (c # cs) =
     (if c = 0x25 then
        (case cs of
           u # h1 # h2 # h3 # h4 # rest \<Rightarrow>
             if u = 0x75 \<and> is_hex h1 \<and> is_hex h2 \<and> is_hex h3 \<and> is_hex h4
             then of_nat (hex_number [h1, h2, h3, h4]) # unescape rest
             else if is_hex u \<and> is_hex h1
             then of_nat (hex_number [u, h1]) # unescape (h2 # h3 # h4 # rest)
             else c # unescape cs
         | h1 # h2 # rest \<Rightarrow>
             if is_hex h1 \<and> is_hex h2
             then of_nat (hex_number [h1, h2]) # unescape rest
             else c # unescape cs
         | _ \<Rightarrow> c # unescape cs)
      else c # unescape cs)"

subsection \<open>\<open>btoa\<close> and \<open>atob\<close>\<close>

definition b64_char :: "nat \<Rightarrow> 16 word" where
  "b64_char i =
     of_nat (if i < 26 then 0x41 + i
             else if i < 52 then 0x61 + (i - 26)
             else if i < 62 then 0x30 + (i - 52)
             else if i = 62 then 0x2B
             else 0x2F)"

definition b64_value :: "16 word \<Rightarrow> nat option" where
  "b64_value c =
     (if 0x41 \<le> c \<and> c \<le> 0x5A then Some (unat c - 0x41)
      else if 0x61 \<le> c \<and> c \<le> 0x7A then Some (unat c - 0x61 + 26)
      else if 0x30 \<le> c \<and> c \<le> 0x39 then Some (unat c - 0x30 + 52)
      else if c = 0x2B then Some 62
      else if c = 0x2F then Some 63
      else None)"

text \<open>
  Three octets make four values of six bits; one or two left-over octets make two or three
  values, and the output is padded with \<open>=\<close> to a multiple of four characters.
\<close>

fun sextets :: "nat list \<Rightarrow> nat list" where
  "sextets [] = []"
| "sextets [a] = [a div 4, a mod 4 * 16]"
| "sextets [a, b] = [a div 4, a mod 4 * 16 + b div 16, b mod 16 * 4]"
| "sextets (a # b # c # rest) =
     a div 4 # (a mod 4 * 16 + b div 16) # (b mod 16 * 4 + c div 64) # c mod 64 # sextets rest"

definition b64_encode :: "nat list \<Rightarrow> jsstring" where
  "b64_encode bs =
     map b64_char (sextets bs) @ replicate ((3 - length bs mod 3) mod 3) 0x3D"

text \<open>\<open>btoa\<close> raises InvalidCharacterError on a code unit above 255.\<close>

definition btoa :: "jsstring \<Rightarrow> exn + jsstring" where
  "btoa s = (if list_all (\<lambda>c. c \<le> 0xFF) s then Inr (b64_encode (map unat s))
             else Inl InvalidCharacterError)"

text \<open>
  Four values of six bits make three octets; of a last group of two or three values, the
  bits that do not fill an octet are discarded.
\<close>

fun b64_decode :: "nat list \<Rightarrow> nat list" where
  "b64_decode (p # q # r # s # rest) =
     (p * 4 + q div 16) # (q mod 16 * 16 + r div 4) # (r mod 4 * 64 + s) # b64_decode rest"
| "b64_decode [p, q, r] = [p * 4 + q div 16, q mod 16 * 16 + r div 4]"
| "b64_decode [p, q] = [p * 4 + q div 16]"
| "b64_decode _ = []"

definition is_ascii_whitespace :: "16 word \<Rightarrow> bool" where
  "is_ascii_whitespace c = (c \<in> {0x09, 0x0A, 0x0C, 0x0D, 0x20})"

definition strip_padding :: "jsstring \<Rightarrow> jsstring" where
  "strip_padding d =
     (if d \<noteq> [] \<and> last d = 0x3D
      then (if butlast d \<noteq> [] \<and> last (butlast d) = 0x3D then butlast (butlast d) else butlast d)
      else d)"

text \<open>
  \<open>atob\<close> (the forgiving base64 decoder): white space is removed; padding is removed when
  the length is a multiple of four; a length of \<open>4k + 1\<close> or a character outside the
  alphabet raises InvalidCharacterError.
\<close>

definition atob :: "jsstring \<Rightarrow> exn + jsstring" where
  "atob data =
     (let d1 = filter (\<lambda>c. \<not> is_ascii_whitespace c) data;
          d2 = (if length d1 mod 4 = 0 then strip_padding d1 else d1)
      in if length d2 mod 4 = 1 then Inl InvalidCharacterError
         else case those (map b64_value d2) of
                None \<Rightarrow> Inl InvalidCharacterError
              | Some vs \<Rightarrow> Inr (map of_nat (b64_decode vs)))"

subsection \<open>\<open>escape\<close> and \<open>decodeURIComponent\<close>\<close>

definition escape_unreserved :: "16 word \<Rightarrow> bool" where
  "escape_unreserved c = (is_alnum c \<or> c \<in> {0x40, 0x2A, 0x5F, 0x2B, 0x2D, 0x2E, 0x2F})"

definition escape_unit :: "16 word \<Rightarrow> jsstring" where
  "escape_unit c =
     (if escape_unreserved c then [c]
      else if c < 0x100 then percent_octet (unat c)
      else [0x25, 0x75, hex_upper (unat c div 4096), hex_upper (unat c div 256 mod 16),
            hex_upper (unat c div 16 mod 16), hex_upper (unat c mod 16)])"

definition escape :: "jsstring \<Rightarrow> jsstring" where
  "escape s = concat (map escape_unit s)"

text \<open>
  \<open>decodeURIComponent\<close>, in two passes. First every \<open>%\<close> must start \<open>%XX\<close>, which is read
  as an octet. Then the octets must be UTF-8: an octet below \<open>0x80\<close> is a character, a lead
  octet takes the continuation octets that follow it, and a sequence that is not the
  well-formed encoding of a code point (too long a form, a surrogate, beyond
  \<open>0x10FFFF\<close>, a missing continuation) raises URIError.
\<close>

datatype uri_item = Lit "16 word" | Octet nat

fun percent_items :: "jsstring \<Rightarrow> exn + uri_item list" where
  "percent_items [] = Inr []"
| "percent_items (c # cs) =
     (if c = 0x25 then
        (case cs of
           h1 # h2 # rest \<Rightarrow>
             if is_hex h1 \<and> is_hex h2
             then (case percent_items rest of
                     Inl e \<Rightarrow> Inl e
                   | Inr its \<Rightarrow> Inr (Octet (hex_number [h1, h2]) # its))
             else Inl URIError
         | _ \<Rightarrow> Inl URIError)
      else (case percent_items cs of
              Inl e \<Rightarrow> Inl e
            | Inr its \<Rightarrow> Inr (Lit c # its)))"

definition is_continuation :: "nat \<Rightarrow> bool" where
  "is_continuation b = (0x80 \<le> b \<and> b \<le> 0xBF)"

fun utf8_items :: "uri_item list \<Rightarrow> exn + jsstring" where
  "utf8_items [] = Inr []"
| "utf8_items (Lit c # its) = prepend [c] (utf8_items its)"
| "utf8_items (Octet b # its) =
     (if b < 0x80 then prepend [of_nat b] (utf8_items its)
      else if 0xC2 \<le> b \<and> b \<le> 0xDF then
        (case its of
           Octet b1 # rest \<Rightarrow>
             if is_continuation b1
             then prepend (utf16_units ((b - 0xC0) * 64 + (b1 - 0x80))) (utf8_items rest)
             else Inl URIError
         | _ \<Rightarrow> Inl URIError)
      else if 0xE0 \<le> b \<and> b \<le> 0xEF then
        (case its of
           Octet b1 # Octet b2 # rest \<Rightarrow>
             if is_continuation b1 \<and> is_continuation b2
                \<and> (b = 0xE0 \<longrightarrow> 0xA0 \<le> b1) \<and> (b = 0xED \<longrightarrow> b1 \<le> 0x9F)
             then prepend (utf16_units ((b - 0xE0) * 4096 + (b1 - 0x80) * 64 + (b2 - 0x80)))
                    (utf8_items rest)
             else Inl URIError
         | _ \<Rightarrow> Inl URIError)
      else if 0xF0 \<le> b \<and> b \<le> 0xF4 then
        (case its of
           Octet b1 # Octet b2 # Octet b3 # rest \<Rightarrow>
             if is_continuation b1 \<and> is_continuation b2 \<and> is_continuation b3
                \<and> (b = 0xF0 \<longrightarrow> 0x90 \<le> b1) \<and> (b = 0xF4 \<longrightarrow> b1 \<le> 0x8F)
             then prepend (utf16_units ((b - 0xF0) * 262144 + (b1 - 0x80) * 4096
                                          + (b2 - 0x80) * 64 + (b3 - 0x80)))
                    (utf8_items rest)
             else Inl URIError
         | _ \<Rightarrow> Inl URIError)
      else Inl URIError)"

definition decodeURIComponent :: "jsstring \<Rightarrow> exn + jsstring" where
  "decodeURIComponent s =
     (case percent_items s of Inl e \<Rightarrow> Inl e | Inr its \<Rightarrow> utf8_items its)"

text \<open>What the first pass reads an octet back as, once \<open>escape\<close> has written it.\<close>

definition octet_item :: "nat \<Rightarrow> uri_item" where
  "octet_item b = (if escape_unreserved (of_nat b) then Lit (of_nat b) else Octet b)"

subsection \<open>\<open>JSON.parse\<close>\<close>

text \<open>
  A parsed JSON text. A number keeps its literal and an object its members as written:
  the program only asks whether the value is an array, and what its elements are.
\<close>

datatype json =
    JNull
  | JBool bool
  | JNumber jsstring
  | JString jsstring
  | JArray "json list"
  | JObject "(jsstring \<times> json) list"

datatype token =
    TLBracket | TRBracket | TLBrace | TRBrace | TColon | TComma
  | TString jsstring | TNumber jsstring | TTrue | TFalse | TNull

text \<open>
  The scanner reads one code unit at a time. Inside a number it remembers how far the
  literal \<open>-? int frac? exp?\<close> has come; inside a string, the code units read so far (last
  one first); inside \<open>true\<close>, \<open>false\<close> and \<open>null\<close>, the letters still to come.
\<close>

datatype num_state = NMinus | NZero | NInt | NDot | NFrac | NExp | NExpSign | NExpDigits

datatype scan_state =
    LStart
  | LString jsstring
  | LEscape jsstring
  | LUnicode jsstring jsstring
  | LNumber num_state jsstring
  | LKeyword jsstring token

definition scan_start :: "16 word \<Rightarrow> (token list \<times> scan_state) option" where
  "scan_start c =
     (if c \<in> {0x09, 0x0A, 0x0D, 0x20} then Some ([], LStart)
      else if c = 0x5B then Some ([TLBracket], LStart)
      else if c = 0x5D then Some ([TRBracket], LStart)
      else if c = 0x7B then Some ([TLBrace], LStart)
      else if c = 0x7D then Some ([TRBrace], LStart)
      else if c = 0x3A then Some ([TColon], LStart)
      else if c = 0x2C then Some ([TComma], LStart)
      else if c = 0x22 then Some ([], LString [])
      else if c = 0x2D then Some ([], LNumber NMinus [c])
      else if c = 0x30 then Some ([], LNumber NZero [c])
      else if 0x31 \<le> c \<and> c \<le> 0x39 then Some ([], LNumber NInt [c])
      else if c = 0x74 then Some ([], LKeyword (js ''rue'') TTrue)
      else if c = 0x66 then Some ([], LKeyword (js ''alse'') TFalse)
      else if c = 0x6E then Some ([], LKeyword (js ''ull'') TNull)
      else None)"

text \<open>
  The next state of a number on one more code unit; \<open>None\<close> when the code unit does not
  continue the literal.
\<close>

definition num_next :: "num_state \<Rightarrow> 16 word \<Rightarrow> num_state option" where
  "num_next st c =
     (case st of
        NMinus \<Rightarrow> if c = 0x30 then Some NZero else if is_digit c then Some NInt else None
      | NZero \<Rightarrow> if c = 0x2E then Some NDot else if c = 0x65 \<or> c = 0x45 then Some NExp else None
      | NInt \<Rightarrow> if is_digit c then Some NInt else if c = 0x2E then Some NDot
                else if c = 0x65 \<or> c = 0x45 then Some NExp else None
      | NDot \<Rightarrow> if is_digit c then Some NFrac else None
      | NFrac \<Rightarrow> if is_digit c then Some NFrac else if c = 0x65 \<or> c = 0x45 then Some NExp else None
      | NExp \<Rightarrow> if c = 0x2B \<or> c = 0x2D then Some NExpSign
                else if is_digit c then Some NExpDigits else None
      | NExpSign \<Rightarrow> if is_digit c then Some NExpDigits else None
      | NExpDigits \<Rightarrow> if is_digit c then Some NExpDigits else None)"

definition num_complete :: "num_state \<Rightarrow> bool" where
  "num_complete st = (st = NZero \<or> st = NInt \<or> st = NFrac \<or> st = NExpDigits)"

definition scan_step :: "scan_state \<Rightarrow> 16 word \<Rightarrow> (token list \<times> scan_state) option" where
  "scan_step st c =
     (case st of
        LStart \<Rightarrow> scan_start c
      | LString acc \<Rightarrow>
          if c = 0x22 then Some ([TString (rev acc)], LStart)
          else if c = 0x5C then Some ([], LEscape acc)
          else if c < 0x20 then None
          else Some ([], LString (c # acc))
      | LEscape acc \<Rightarrow>
          if c = 0x22 \<or> c = 0x5C \<or> c = 0x2F then Some ([], LString (c # acc))
          else if c = 0x62 then Some ([], LString (0x08 # acc))
          else if c = 0x66 then Some ([], LString (0x0C # acc))
          else if c = 0x6E then Some ([], LString (0x0A # acc))
          else if c = 0x72 then Some ([], LString (0x0D # acc))
          else if c = 0x74 then Some ([], LString (0x09 # acc))
          else if c = 0x75 then Some ([], LUnicode acc [])
          else None
      | LUnicode acc ds \<Rightarrow>
          if is_hex c
          then (if length ds = 3 then Some ([], LString (of_nat (hex_number (ds @ [c])) # acc))
                else Some ([], LUnicode acc (ds @ [c])))
          else None
      | LNumber ns txt \<Rightarrow>
          (case num_next ns c of
             Some ns' \<Rightarrow> Some ([], LNumber ns' (c # txt))
           | None \<Rightarrow>
               if num_complete ns
               then (case scan_start c of
                       None \<Rightarrow> None
                     | Some (toks, st') \<Rightarrow> Some (TNumber (rev txt) # toks, st'))
               else None)
      | LKeyword rest tok \<Rightarrow>
          (case rest of
             [] \<Rightarrow> None
           | r # rs \<Rightarrow>
               if c = r then (if rs = [] then Some ([tok], LStart) else Some ([], LKeyword rs tok))
               else None))"

definition scan_finish :: "scan_state \<Rightarrow> token list option" where
  "scan_finish st =
     (case st of
        LStart \<Rightarrow> Some []
      | LNumber ns txt \<Rightarrow> if num_complete ns then Some [TNumber (rev txt)] else None
      | _ \<Rightarrow> None)"

fun scan :: "scan_state \<Rightarrow> jsstring \<Rightarrow> token list option" where
  "scan st [] = scan_finish st"
| "scan st (c # cs) =
     (case scan_step st c of
        None \<Rightarrow> None
      | Some (toks, st') \<Rightarrow> map_option ((@) toks) (scan st' cs))"

text \<open>
  The parser reads one token at a time and keeps the open arrays and objects on a stack:
  the elements or members read so far (last one first), and the key of the member whose
  value is being read.
\<close>

datatype frame = FArray "json list" | FObject "(jsstring \<times> json) list" | FMember jsstring

datatype expect =
    EValue | EArrayStart | EAfterValue | EObjectStart | EKey | EColon jsstring | EDone json

definition complete_value :: "json \<Rightarrow> frame list \<Rightarrow> (expect \<times> frame list) option" where
  "complete_value v stack =
     (case stack of
        [] \<Rightarrow> Some (EDone v, [])
      | FArray vs # fs \<Rightarrow> Some (EAfterValue, FArray (v # vs) # fs)
      | FMember k # FObject ms # fs \<Rightarrow> Some (EAfterValue, FObject ((k, v) # ms) # fs)
      | _ \<Rightarrow> None)"

definition value_start :: "token \<Rightarrow> frame list \<Rightarrow> (expect \<times> frame list) option" where
  "value_start tok stack =
     (case tok of
        TString s \<Rightarrow> complete_value (JString s) stack
      | TNumber n \<Rightarrow> complete_value (JNumber n) stack
      | TTrue \<Rightarrow> complete_value (JBool True) stack
      | TFalse \<Rightarrow> complete_value (JBool False) stack
      | TNull \<Rightarrow> complete_value JNull stack
      | TLBracket \<Rightarrow> Some (EArrayStart, FArray [] # stack)
      | TLBrace \<Rightarrow> Some (EObjectStart, FObject [] # stack)
      | _ \<Rightarrow> None)"

definition close_array :: "frame list \<Rightarrow> (expect \<times> frame list) option" where
  "close_array stack =
     (case stack of FArray vs # fs \<Rightarrow> complete_value (JArray (rev vs)) fs | _ \<Rightarrow> None)"

definition close_object :: "frame list \<Rightarrow> (expect \<times> frame list) option" where
  "close_object stack =
     (case stack of FObject ms # fs \<Rightarrow> complete_value (JObject (rev ms)) fs | _ \<Rightarrow> None)"

definition parse_step :: "expect \<times> frame list \<Rightarrow> token \<Rightarrow> (expect \<times> frame list) option" where
  "parse_step st tok =
     (case st of
        (EValue, stack) \<Rightarrow> value_start tok stack
      | (EArrayStart, stack) \<Rightarrow>
          if tok = TRBracket then close_array stack else value_start tok stack
      | (EAfterValue, stack) \<Rightarrow>
          if tok = TComma then
            (case stack of
               FArray vs # fs \<Rightarrow> Some (EValue, stack)
             | FObject ms # fs \<Rightarrow> Some (EKey, stack)
             | _ \<Rightarrow> None)
          else if tok = TRBracket then close_array stack
          else if tok = TRBrace then close_object stack
          else None
      | (EObjectStart, stack) \<Rightarrow>
          (case tok of
             TRBrace \<Rightarrow> close_object stack
           | TString k \<Rightarrow> Some (EColon k, stack)
           | _ \<Rightarrow> None)
      | (EKey, stack) \<Rightarrow> (case tok of TString k \<Rightarrow> Some (EColon k, stack) | _ \<Rightarrow> None)
      | (EColon k, stack) \<Rightarrow> if tok = TColon then Some (EValue, FMember k # stack) else None
      | (EDone v, stack) \<Rightarrow> None)"

fun parse_tokens :: "expect \<times> frame list \<Rightarrow> token list \<Rightarrow> (expect \<times> frame list) option" where
  "parse_tokens st [] = Some st"
| "parse_tokens st (tok # toks) =
     (case parse_step st tok of None \<Rightarrow> None | Some st' \<Rightarrow> parse_tokens st' toks)"

text \<open>
  \<open>JSON.parse\<close>: the value, or SyntaxError. (An engine also gives up on a text nested
  too deeply for its stack; no such bound is modelled.)
\<close>

definition JSON_parse :: "jsstring \<Rightarrow> exn + json" where
  "JSON_parse s =
     (case scan LStart s of
        None \<Rightarrow> Inl SyntaxError
      | Some toks \<Rightarrow>
          (case parse_tokens (EValue, []) toks of
             Some (EDone v, []) \<Rightarrow> Inr v
           | _ \<Rightarrow> Inl SyntaxError))"

text \<open>\<open>Array.isArray\<close>, and the elements of an array.\<close>

definition Array_isArray :: "json \<Rightarrow> bool" where
  "Array_isArray v = (case v of JArray xs \<Rightarrow> True | _ \<Rightarrow> False)"

definition elements :: "json \<Rightarrow> json list" where
  "elements v = (case v of JArray xs \<Rightarrow> xs | _ \<Rightarrow> [])"

subsection \<open>\<open>URLSearchParams\<close>\<close>

text \<open>
  The constructor parses its argument as \<open>application/x-www-form-urlencoded\<close>: the string
  is encoded in UTF-8 (a surrogate without its partner as \<open>U+FFFD\<close>) and split at \<open>&\<close>;
  each non-empty piece is split at its first \<open>=\<close>; in name and value \<open>+\<close> becomes a space,
  \<open>%XX\<close> is decoded, and the octets are decoded as UTF-8, \<open>U+FFFD\<close> standing for what is
  not UTF-8.
\<close>

fun usv_octets :: "jsstring \<Rightarrow> nat list" where
  "usv_octets [] = []"
| "usv_octets (c # cs) =
     (if is_high_surrogate c then
        (case cs of
           [] \<Rightarrow> utf8_octets 0xFFFD
         | d # ds \<Rightarrow>
             if is_low_surrogate d then utf8_octets (pair_code_point c d) @ usv_octets ds
             else utf8_octets 0xFFFD @ usv_octets cs)
      else if is_low_surrogate c then utf8_octets 0xFFFD @ usv_octets cs
      else utf8_octets (unat c) @ usv_octets cs)"

fun split_octets :: "nat \<Rightarrow> nat list \<Rightarrow> nat list list" where
  "split_octets sep [] = [[]]"
| "split_octets sep (b # bs) =
     (if b = sep then [] # split_octets sep bs
      else case split_octets sep bs of
             [] \<Rightarrow> [[b]]
           | p # ps \<Rightarrow> (b # p) # ps)"

definition octet_is_hex :: "nat \<Rightarrow> bool" where
  "octet_is_hex b = (b < 0x80 \<and> is_hex (of_nat b))"

fun percent_decode :: "nat list \<Rightarrow> nat list" where
  "percent_decode [] = []"
| "percent_decode (b # bs) =
     (if b = 0x25 then
        (case bs of
           h1 # h2 # rest \<Rightarrow>
             if octet_is_hex h1 \<and> octet_is_hex h2
             then hex_number [of_nat h1, of_nat h2] # percent_decode rest
             else b # percent_decode bs
         | _ \<Rightarrow> b # percent_decode bs)
      else b # percent_decode bs)"

text \<open>
  The UTF-8 decoder of the Encoding standard. Its state: the code point so far, the
  continuation octets still needed, and the bounds for the next octet. An octet out of
  bounds ends the sequence with \<open>U+FFFD\<close> and is read again as the start of a new one.
\<close>

definition utf8_lead :: "nat \<Rightarrow> nat list \<times> (nat \<times> nat \<times> nat \<times> nat)" where
  "utf8_lead b =
     (if b \<le> 0x7F then ([b], (0, 0, 0x80, 0xBF))
      else if 0xC2 \<le> b \<and> b \<le> 0xDF then ([], (b - 0xC0, 1, 0x80, 0xBF))
      else if 0xE0 \<le> b \<and> b \<le> 0xEF then
        ([], (b - 0xE0, 2, if b = 0xE0 then 0xA0 else 0x80, if b = 0xED then 0x9F else 0xBF))
      else if 0xF0 \<le> b \<and> b \<le> 0xF4 then
        ([], (b - 0xF0, 3, if b = 0xF0 then 0x90 else 0x80, if b = 0xF4 then 0x8F else 0xBF))
      else ([0xFFFD], (0, 0, 0x80, 0xBF)))"

fun utf8_decode_lossy :: "nat \<times> nat \<times> nat \<times> nat \<Rightarrow> nat list \<Rightarrow> nat list" where
  "utf8_decode_lossy (cp, needed, lower, upper) [] = (if needed = 0 then [] else [0xFFFD])"
| "utf8_decode_lossy (cp, needed, lower, upper) (b # bs) =
     (if needed = 0 then fst (utf8_lead b) @ utf8_decode_lossy (snd (utf8_lead b)) bs
      else if b < lower \<or> upper < b
      then 0xFFFD # fst (utf8_lead b) @ utf8_decode_lossy (snd (utf8_lead b)) bs
      else if needed = 1 then (cp * 64 + (b - 0x80)) # utf8_decode_lossy (0, 0, 0x80, 0xBF) bs
      else utf8_decode_lossy (cp * 64 + (b - 0x80), needed - 1, 0x80, 0xBF) bs)"

definition form_decode :: "nat list \<Rightarrow> jsstring" where
  "form_decode bs =
     concat (map utf16_units
       (utf8_decode_lossy (0, 0, 0x80, 0xBF)
          (percent_decode (map (\<lambda>b. if b = 0x2B then 0x20 else b) bs))))"

definition URLSearchParams :: "jsstring \<Rightarrow> (jsstring \<times> jsstring) list" where
  "URLSearchParams init =
     (let input = (if init \<noteq> [] \<and> hd init = 0x3F then tl init else init);
          pieces = filter (\<lambda>p. p \<noteq> []) (split_octets 0x26 (usv_octets input))
      in map (\<lambda>p. (form_decode (takeWhile (\<lambda>b. b \<noteq> 0x3D) p),
                    form_decode (drop 1 (dropWhile (\<lambda>b. b \<noteq> 0x3D) p)))) pieces)"

text \<open>\<open>params.get(name)\<close>: the value of the first pair with that name, or \<open>null\<close>.\<close>

definition params_get :: "(jsstring \<times> jsstring) list \<Rightarrow> jsstring \<Rightarrow> jsstring option" where
  "params_get params name = map_of params name"

section \<open>The starred set and its two stores\<close>

text \<open>
  \<^verbatim>\<open>const LS_KEY = 'ndss2026_starred_talks'; const HASH_PARAM = 'a';\<close>
\<close>

definition LS_KEY :: jsstring where
  "LS_KEY = js ''ndss2026_starred_talks''"

definition HASH_PARAM :: jsstring where
  "HASH_PARAM = js ''a''"

subsection \<open>Encoding helpers\<close>

text \<open>
  \<^verbatim>\<open>function encodeStarred(ids)\<close>. The default \<open>sort()\<close> of an array of strings orders them
  as strings are compared. The three \<open>replace\<close> calls turn \<open>+\<close> into \<open>-\<close> and \<open>/\<close> into \<open>_\<close>
  and remove the \<open>=\<close> at the end.
\<close>

definition replace_all :: "16 word \<Rightarrow> 16 word \<Rightarrow> jsstring \<Rightarrow> jsstring" where
  "replace_all a b s = map (\<lambda>c. if c = a then b else c) s"

definition strip_trailing_eq :: "jsstring \<Rightarrow> jsstring" where
  "strip_trailing_eq s = rev (dropWhile (\<lambda>c. c = 0x3D) (rev s))"

definition encodeStarred :: "jsstring list \<Rightarrow> exn + jsstring" where
  "encodeStarred ids =
     (if length ids = 0 then Inr []
      else
        let json = JSON_stringify (sort ids) in
        case encodeURIComponent json of
          Inl e \<Rightarrow> Inl e
        | Inr u \<Rightarrow>
            (case btoa (unescape u) of
               Inl e \<Rightarrow> Inl e
             | Inr b64 \<Rightarrow>
                 Inr (strip_trailing_eq (replace_all 0x2F 0x5F (replace_all 0x2B 0x2D b64)))))"

text \<open>
  \<^verbatim>\<open>function decodeStarred(encoded)\<close>: the body of its \<open>try\<close>, which can raise, and the
  function, which returns \<open>[]\<close> for an empty argument and whenever the body raises.
\<close>

definition decodeStarred_try :: "jsstring \<Rightarrow> exn + json list" where
  "decodeStarred_try encoded =
     (let b64 = replace_all 0x5F 0x2F (replace_all 0x2D 0x2B encoded) in
      case atob b64 of
        Inl e \<Rightarrow> Inl e
      | Inr bin \<Rightarrow>
          (case decodeURIComponent (escape bin) of
             Inl e \<Rightarrow> Inl e
           | Inr json \<Rightarrow>
               (case JSON_parse json of
                  Inl e \<Rightarrow> Inl e
                | Inr arr \<Rightarrow> Inr (if Array_isArray arr then elements arr else []))))"

definition decodeStarred :: "jsstring \<Rightarrow> json list" where
  "decodeStarred encoded =
     (if encoded = [] then []
      else case decodeStarred_try encoded of Inl e \<Rightarrow> [] | Inr arr \<Rightarrow> arr)"

subsection \<open>URL hash persistence\<close>

text \<open>
  \<^verbatim>\<open>function readHashStarred()\<close>, given \<open>window.location.hash\<close>. \<open>None\<close> is \<open>null\<close>.
\<close>

definition readHashStarred :: "jsstring \<Rightarrow> json list option" where
  "readHashStarred location_hash =
     (let hash = drop 1 location_hash in
      if hash = [] then None
      else
        let params = URLSearchParams hash in
        case params_get params HASH_PARAM of
          None \<Rightarrow> None
        | Some encoded \<Rightarrow> if encoded = [] then None else Some (decodeStarred encoded))"

text \<open>
  \<^verbatim>\<open>function writeHash(ids)\<close>: the new value of \<open>window.location.hash\<close>. Replacing the URL
  by its path and query leaves no fragment. The encoding consists of letters, digits, \<open>-\<close>
  and \<open>_\<close> (\<open>encodeStarred_alphabet\<close> below), which a fragment keeps as they are.
\<close>

definition writeHash :: "jsstring list \<Rightarrow> exn + jsstring" where
  "writeHash ids =
     (if length ids = 0 then Inr []
      else case encodeStarred ids of
             Inl e \<Rightarrow> Inl e
           | Inr encoded \<Rightarrow> Inr (js ''#'' @ HASH_PARAM @ js ''='' @ encoded))"

subsection \<open>localStorage persistence\<close>

text \<open>
  The store: its items, and whether reading or writing it raises (storage disabled, private
  mode, quota exceeded).
\<close>

record storage =
  items :: "jsstring \<rightharpoonup> jsstring"
  getItem_raises :: bool
  setItem_raises :: bool

text \<open>\<^verbatim>\<open>function loadStarredFromLS()\<close>: the body of its \<open>try\<close>, and the function.\<close>

definition loadStarredFromLS_try :: "storage \<Rightarrow> exn + json list" where
  "loadStarredFromLS_try ls =
     (if getItem_raises ls then Inl SecurityError
      else case items ls LS_KEY of
             None \<Rightarrow> Inr []
           | Some raw \<Rightarrow>
               if raw = [] then Inr []
               else case JSON_parse raw of
                      Inl e \<Rightarrow> Inl e
                    | Inr arr \<Rightarrow> Inr (if Array_isArray arr then elements arr else []))"

definition loadStarredFromLS :: "storage \<Rightarrow> json list" where
  "loadStarredFromLS ls = (case loadStarredFromLS_try ls of Inl e \<Rightarrow> [] | Inr arr \<Rightarrow> arr)"

text \<open>\<^verbatim>\<open>function saveStarredToLS(ids)\<close>: a write that raises is swallowed.\<close>

definition saveStarredToLS :: "jsstring list \<Rightarrow> storage \<Rightarrow> storage" where
  "saveStarredToLS ids ls =
     (if setItem_raises ls then ls
      else ls\<lparr>items := (items ls)(LS_KEY \<mapsto> JSON_stringify ids)\<rparr>)"

subsection \<open>Star management\<close>

text \<open>
  The state: the set \<open>starred\<close>, the store, and the fragment of the page's URL. Session
  identifiers are strings.
\<close>

record app =
  starred :: "jsstring list"
  localStorage :: storage
  location_hash :: jsstring

text \<open>
  \<^verbatim>\<open>function persist()\<close>. The store is written first; an exception of \<open>writeHash\<close> would
  leave the function at that point (there is none: \<open>persist_returns\<close> below).
\<close>

definition persist :: "app \<Rightarrow> exn + app" where
  "persist st =
     (let ids = starred st;
          st1 = st\<lparr>localStorage := saveStarredToLS ids (localStorage st)\<rparr>
      in case writeHash ids of
           Inl e \<Rightarrow> Inl e
         | Inr h \<Rightarrow> Inr (st1\<lparr>location_hash := h\<rparr>))"

text \<open>\<^verbatim>\<open>function toggleStar(sessionId)\<close>\<close>

definition toggleStar :: "jsstring \<Rightarrow> app \<Rightarrow> exn + app" where
  "toggleStar sessionId st =
     persist (if Set_has (starred st) sessionId
              then st\<lparr>starred := Set_delete sessionId (starred st)\<rparr>
              else st\<lparr>starred := Set_add sessionId (starred st)\<rparr>)"

text \<open>
  \<^verbatim>\<open>function resetAgenda()\<close>, given the answer to its \<open>confirm\<close> dialogue; the rendering
  that follows is left out.
\<close>

definition resetAgenda :: "bool \<Rightarrow> app \<Rightarrow> exn + app" where
  "resetAgenda confirmed st = (if \<not> confirmed then Inr st else persist (st\<lparr>starred := []\<rparr>))"

subsection \<open>Initialisation\<close>

text \<open>
  The identifiers of a decoded array: its elements when all of them are strings. An array
  with another kind of element is no set of identifiers; what the program does with it is
  outside this model (\<open>None\<close>).
\<close>

fun identifiers :: "json list \<Rightarrow> jsstring list option" where
  "identifiers [] = Some []"
| "identifiers (JString s # vs) = map_option ((#) s) (identifiers vs)"
| "identifiers (_ # vs) = None"

text \<open>
  Step 2 of \<^verbatim>\<open>async function init()\<close>, reached once the program data is loaded:
  the URL hash wins, with local storage as the fallback.
\<close>

definition init :: "app \<Rightarrow> app option" where
  "init st =
     (let fromLS =
            (case identifiers (loadStarredFromLS (localStorage st)) of
               None \<Rightarrow> None
             | Some ids \<Rightarrow> Some (st\<lparr>starred := new_Set ids\<rparr>))
      in case readHashStarred (location_hash st) of
           None \<Rightarrow> fromLS
         | Some fromHash \<Rightarrow>
             if length fromHash > 0
             then (case identifiers fromHash of
                     None \<Rightarrow> None
                   | Some ids \<Rightarrow>
                       Some (st\<lparr>starred := new_Set ids,
                                localStorage := saveStarredToLS ids (localStorage st)\<rparr>))
             else fromLS)"

section \<open>Properties of the time helpers and of conflict detection\<close>

subsection \<open>Parsing clock times\<close>

subsection \<open>Rounding to a double\<close>

text \<open>\<open>floor_log2\<close> is the binary exponent: the one \<open>e\<close> with \<open>2^e \<le> q < 2^(e + 1)\<close>.\<close>

lemma bitlen_powi_bounds:
  assumes "0 < p"
  shows "(2::rat) powi (bitlen p - 1) \<le> of_int p" and "(of_int p :: rat) < 2 powi bitlen p"
proof -
  have b: "1 \<le> bitlen p" using assms by (simp add: bitlen_ge_iff_power)
  from bitlen_bounds[OF assms]
  have lo: "2 ^ nat (bitlen p - 1) \<le> p" and hi: "p < 2 ^ nat (bitlen p)" by auto
  have "(2::rat) powi (bitlen p - 1) = 2 ^ nat (bitlen p - 1)"
    using b by (simp add: power_int_def)
  also have "\<dots> = of_int (2 ^ nat (bitlen p - 1))" by simp
  also have "\<dots> \<le> of_int p" using lo by (simp only: of_int_le_iff)
  finally show "(2::rat) powi (bitlen p - 1) \<le> of_int p" .
  have "(of_int p :: rat) < of_int (2 ^ nat (bitlen p))" using hi by (simp only: of_int_less_iff)
  also have "\<dots> = 2 ^ nat (bitlen p)" by simp
  also have "\<dots> = 2 powi bitlen p" using b by (simp add: power_int_def)
  finally show "(of_int p :: rat) < 2 powi bitlen p" .
qed

lemma floor_log2_bounds:
  assumes "0 < q"
  shows "2 powi floor_log2 q \<le> q \<and> q < 2 powi (floor_log2 q + 1)"
proof -
  obtain p d where pd: "quotient_of q = (p, d)" by (cases "quotient_of q")
  have d: "0 < d" using pd by (rule quotient_of_denom_pos)
  have q: "q = of_int p / of_int d" using pd by (rule quotient_of_div)
  have p: "0 < p" using assms d q by (simp add: zero_less_divide_iff)
  define e where "e = bitlen p - bitlen d"
  note P = bitlen_powi_bounds[OF p] and D = bitlen_powi_bounds[OF d]
  have "q < 2 powi bitlen p / of_int d"
    unfolding q using P(2) d by (simp add: divide_strict_right_mono)
  also have "\<dots> \<le> 2 powi bitlen p / 2 powi (bitlen d - 1)"
    using D(1) by (intro divide_left_mono) (auto intro!: mult_pos_pos simp: d)
  also have "\<dots> = 2 powi (e + 1)"
    by (simp add: e_def power_int_diff[symmetric] algebra_simps)
  finally have up: "q < 2 powi (e + 1)" .
  have fl: "floor_log2 q = (if 2 powi e \<le> q then e else e - 1)"
    by (simp add: floor_log2_def pd e_def Let_def)
  have "2 powi (e - 1) = 2 powi (bitlen p - 1) / (2 powi bitlen d :: rat)"
    by (simp add: e_def power_int_diff[symmetric] algebra_simps)
  also have "\<dots> \<le> of_int p / 2 powi bitlen d"
    using P(1) by (intro divide_right_mono) auto
  also have "\<dots> \<le> of_int p / of_int d"
    using D(2) p d by (intro divide_left_mono) (auto intro!: mult_pos_pos)
  finally have low: "2 powi (e - 1) \<le> q" by (simp add: q)
  show ?thesis using up low by (auto simp: fl)
qed

lemma floor_log2_unique:
  assumes "2 powi e \<le> q" "q < 2 powi (e + 1)"
  shows "floor_log2 q = e"
proof -
  have "0 < (2::rat) powi e" by simp
  with assms(1) have "0 < q" by linarith
  from floor_log2_bounds[OF this]
  have b: "2 powi floor_log2 q \<le> q" "q < 2 powi (floor_log2 q + 1)" by auto
  have "\<not> e + 1 \<le> floor_log2 q"
  proof
    assume "e + 1 \<le> floor_log2 q"
    then have "(2::rat) powi (e + 1) \<le> 2 powi floor_log2 q"
      by (intro power_int_increasing) auto
    with b(1) assms(2) show False by linarith
  qed
  moreover have "\<not> floor_log2 q + 1 \<le> e"
  proof
    assume "floor_log2 q + 1 \<le> e"
    then have "(2::rat) powi (floor_log2 q + 1) \<le> 2 powi e"
      by (intro power_int_increasing) auto
    with b(2) assms(1) show False by linarith
  qed
  ultimately show ?thesis by linarith
qed

text \<open>Away from a tie, \<open>round_ties_even\<close> is the nearest integer.\<close>

lemma round_ties_even_near:
  assumes "\<bar>q - of_int n\<bar> < 1 / 2"
  shows "round_ties_even q = n"
proof -
  define f where "f = \<lfloor>q\<rfloor>"
  have fl: "of_int f \<le> q" "q < of_int f + 1"
    using floor_correct[of q] by (simp_all add: f_def)
  have "(of_int f :: rat) < of_int n + 1 / 2" using assms fl by linarith
  then have "(of_int f :: rat) < of_int (n + 1)" by simp
  then have up: "f \<le> n" by (simp only: of_int_less_iff)
  have "(of_int n :: rat) < of_int f + 1 + 1 / 2" using assms fl by linarith
  then have "(of_int n :: rat) < of_int (f + 2)" by simp
  then have low: "n \<le> f + 1" by (simp only: of_int_less_iff)
  from up low consider "f = n" | "f = n - 1" by linarith
  then show ?thesis
  proof cases
    case 1
    then show ?thesis using assms fl
      by (simp add: round_ties_even_def Let_def f_def[symmetric])
  next
    case 2
    then show ?thesis using assms fl
      by (simp add: round_ties_even_def Let_def f_def[symmetric])
  qed
qed

text \<open>Rounding leaves the integers below \<open>2^53\<close> as they are.\<close>

lemma round_ties_even_int: "round_ties_even (of_int m) = m"
  by (simp add: round_ties_even_def)

lemma floor_log2_nat:
  assumes "n < 2 ^ 53"
  shows "floor_log2 (of_nat n) \<le> 52"
proof -
  have q: "quotient_of (of_nat n :: rat) = (int n, 1)"
    using quotient_of_int[of "int n"] by (simp add: Rat.of_int_def)
  have "bitlen (int n) \<le> 53" using assms by (simp add: bitlen_le_iff_power)
  moreover have "bitlen 1 = 1" by (simp add: bitlen_alt_def)
  ultimately show ?thesis by (simp add: floor_log2_def q Let_def)
qed

lemma to_double_nat:
  assumes "n < 2 ^ 53"
  shows "to_double (of_nat n) = Num (of_nat n)"
proof (cases "n = 0")
  case True
  then show ?thesis by (simp add: to_double_def)
next
  case False
  define e where "e = max (floor_log2 (of_nat n)) (- 1022)"
  have e: "e \<le> 52" using floor_log2_nat[OF assms] by (simp add: e_def)
  define k where "k = nat (52 - e)"
  have "e - 52 = - int k" using e by (simp add: k_def)
  then have u: "(2::rat) powi (e - 52) = 1 / 2 ^ k"
    by (simp add: power_int_minus_divide)
  have "of_nat n * 2 ^ k = (of_int (int n * 2 ^ k) :: rat)" by simp
  then have r: "round_ties_even (of_nat n * 2 ^ k) = int n * 2 ^ k"
    using round_ties_even_int[of "int n * 2 ^ k"] by simp
  have v: "of_int (round_ties_even (of_nat n / (1 / 2 ^ k))) * (1 / 2 ^ k) = (of_nat n :: rat)"
    by (simp add: r)
  have "(of_nat n :: rat) < 2 ^ 53" using assms
    by (metis of_nat_less_iff of_nat_numeral of_nat_power)
  also have "\<dots> < 2 powi 1024" by simp
  finally have less: "\<not> (2::rat) powi 1024 \<le> of_nat n" by simp
  have "to_double (of_nat n) =
        (let v = of_int (round_ties_even (of_nat n / (1 / 2 ^ k))) * (1 / 2 ^ k)
         in if 2 powi 1024 \<le> v then PosInfinity else Num v)"
    using False by (simp add: to_double_def Let_def e_def[symmetric] u del: power_int_numeral)
  also have "\<dots> = Num (of_nat n)"
    unfolding Let_def v using less by (simp del: power_int_numeral)
  finally show ?thesis .
qed

lemma to_double_numeral:
  "numeral k < (2::nat) ^ 53 \<Longrightarrow> to_double (numeral k) = Num (numeral k)"
  using to_double_nat[of "numeral k"] by simp

lemma to_double_0: "to_double 0 = Num 0"
  by (simp add: to_double_def)

lemma to_double_1: "to_double 1 = Num 1"
  using to_double_nat[of 1] by simp

text \<open>
  Other values are rounded: \<open>4.1\<close> is the double \<open>2308094809027379 / 2^49\<close>, and 60 times
  that double is again rounded, to \<open>8655355533852671 / 2^45\<close>, which is
  \<open>245.99999999999997\<close> and not 246.
\<close>

lemma to_double_examples:
  "to_double (41 / 10) = Num (2308094809027379 / 2 ^ 49)"
  "to_double (34621422135410685 / 140737488355328) = Num (8655355533852671 / 2 ^ 45)"
  "to_double (8655355533852671 / 35184372088832) = Num (8655355533852671 / 2 ^ 45)"
proof -
  have "floor_log2 (41 / 10) = 2" by (rule floor_log2_unique) simp_all
  moreover have "round_ties_even (23080948090273792 / 5) = 4616189618054758"
    by (rule round_ties_even_near) simp
  ultimately show "to_double (41 / 10) = Num (2308094809027379 / 2 ^ 49)"
    by (simp add: to_double_def Let_def)
  have "floor_log2 (34621422135410685 / 140737488355328) = 7"
    by (rule floor_log2_unique) simp_all
  moreover have "round_ties_even (34621422135410685 / 4) = 8655355533852671"
    by (rule round_ties_even_near) simp
  ultimately show "to_double (34621422135410685 / 140737488355328)
                   = Num (8655355533852671 / 2 ^ 45)"
    by (simp add: to_double_def Let_def)
  have "floor_log2 (8655355533852671 / 35184372088832) = 7"
    by (rule floor_log2_unique) simp_all
  moreover have "round_ties_even 8655355533852671 = 8655355533852671"
    using round_ties_even_int[of 8655355533852671] by simp
  ultimately show "to_double (8655355533852671 / 35184372088832)
                   = Num (8655355533852671 / 2 ^ 45)"
    by (simp add: to_double_def Let_def)
qed

lemma digit_not_whitespace: "is_digit c \<Longrightarrow> \<not> is_str_whitespace c"
  by (auto simp: is_digit_def is_str_whitespace_def word_le_nat_alt)

lemma dropWhile_hd_id: "xs \<noteq> [] \<Longrightarrow> \<not> P (hd xs) \<Longrightarrow> dropWhile P xs = xs"
  by (cases xs) auto

lemma trim_digits:
  assumes "ds \<noteq> []" "list_all is_digit ds"
  shows "trim ds = ds"
proof -
  have h: "\<not> is_str_whitespace (hd ds)"
    using assms by (cases ds) (auto simp: digit_not_whitespace)
  have l: "\<not> is_str_whitespace (hd (rev ds))"
    using assms by (simp add: hd_rev list_all_iff digit_not_whitespace)
  show ?thesis using assms h l by (simp add: trim_def dropWhile_hd_id)
qed

lemma non_decimal_literal_digits:
  assumes "list_all is_digit ds"
  shows "non_decimal_literal ds = None"
  using assms by (auto simp: non_decimal_literal_def is_digit_def split: list.splits)

lemma takeWhile_list_all: "list_all P xs \<Longrightarrow> takeWhile P xs = xs"
  by (induction xs) auto

lemma dropWhile_list_all: "list_all P xs \<Longrightarrow> dropWhile P xs = []"
  by (induction xs) auto

lemma unsigned_decimal_digits:
  assumes "ds \<noteq> []" "list_all is_digit ds" "decimal_digits ds < 2 ^ 53"
  shows "unsigned_decimal ds = Num (of_nat (decimal_digits ds))"
proof -
  have "ds \<noteq> js ''Infinity''" using assms by (auto simp: js_def is_digit_def)
  then have "unsigned_decimal ds = to_double (of_nat (decimal_digits ds))" using assms
    by (simp add: unsigned_decimal_def takeWhile_list_all dropWhile_list_all scale10_def
        decimal_digits_def)
  then show ?thesis using assms(3) by (simp add: to_double_nat)
qed

lemma Number_digits:
  assumes "ds \<noteq> []" "list_all is_digit ds" "decimal_digits ds < 2 ^ 53"
  shows "Number ds = Num (of_nat (decimal_digits ds))"
proof -
  have "is_digit (hd ds)" using assms by (cases ds) auto
  then have "hd ds \<noteq> 0x2B" "hd ds \<noteq> 0x2D" by (auto simp: is_digit_def)
  then show ?thesis using assms
    by (simp add: Number_def trim_digits non_decimal_literal_digits unsigned_decimal_digits)
qed

lemma split_on_absent: "sep \<notin> set s \<Longrightarrow> split_on sep s = [s]"
  by (induction s) auto

lemma split_on_once:
  "sep \<notin> set a \<Longrightarrow> sep \<notin> set b \<Longrightarrow> split_on sep (a @ sep # b) = [a, b]"
  by (induction a) (auto simp: split_on_absent)

lemma digit_not_colon: "is_digit c \<Longrightarrow> c \<noteq> colon"
  by (auto simp: is_digit_def colon_def)

text \<open>
  Every string \<open>digits:digits\<close> whose minutes stay below \<open>2^53\<close>, in particular every \<open>H:MM\<close>
  and \<open>HH:MM\<close>, parses to \<open>hours * 60 + minutes\<close>.
\<close>

lemma toMinutes_digits:
  assumes "hs \<noteq> []" "list_all is_digit hs" "ms \<noteq> []" "list_all is_digit ms"
    and "decimal_digits hs * 60 + decimal_digits ms < 2 ^ 53"
  shows "toMinutes (Some (hs @ colon # ms)) =
         Some (Num (of_nat (decimal_digits hs * 60 + decimal_digits ms)))"
proof -
  have "colon \<notin> set hs" "colon \<notin> set ms"
    using assms digit_not_colon by (auto simp: list_all_iff)
  then have parts: "split_on colon (hs @ colon # ms) = [hs, ms]" by (rule split_on_once)
  have h: "Number hs = Num (of_nat (decimal_digits hs))"
    using assms by (intro Number_digits) auto
  have m: "Number ms = Num (of_nat (decimal_digits ms))"
    using assms by (intro Number_digits) auto
  have "js_times (Num (of_nat (decimal_digits hs))) (Num 60)
        = to_double (of_nat (decimal_digits hs * 60))" by simp
  also have "\<dots> = Num (of_nat (decimal_digits hs * 60))"
    using assms(5) by (intro to_double_nat) auto
  finally have t: "js_times (Num (of_nat (decimal_digits hs))) (Num 60)
                   = Num (of_nat (decimal_digits hs * 60))" .
  have "js_plus (Num (of_nat (decimal_digits hs * 60))) (Num (of_nat (decimal_digits ms)))
        = to_double (of_nat (decimal_digits hs * 60 + decimal_digits ms))" by simp
  also have "\<dots> = Num (of_nat (decimal_digits hs * 60 + decimal_digits ms))"
    using assms(5) by (rule to_double_nat)
  finally have p: "js_plus (Num (of_nat (decimal_digits hs * 60)))
                     (Num (of_nat (decimal_digits ms)))
                   = Num (of_nat (decimal_digits hs * 60 + decimal_digits ms))" .
  have "toMinutes (Some (hs @ colon # ms)) =
        Some (js_plus (js_times (Number hs) (Num 60)) (Number ms))"
    by (simp add: toMinutes_def includes_char_def parts h m isNaN_def
        del: js_times.simps js_plus.simps)
  then show ?thesis by (simp only: h m t p)
qed

text \<open>
  The minutes are computed in doubles: \<open>4.1:0\<close> is read as \<open>245.99999999999997\<close>, which is
  not the 246 of \<open>4:06\<close>.
\<close>

lemma toMinutes_rounds:
  "toMinutes (Some (js ''4.1:0'')) = Some (Num (8655355533852671 / 2 ^ 45))"
  by (simp add: toMinutes_def js_def includes_char_def colon_def Number_def trim_def
      is_str_whitespace_def non_decimal_literal_def unsigned_decimal_def is_digit_def
      decimal_digits_def scale10_def isNaN_def to_double_0 to_double_examples)

lemmas Number_eval =
  toMinutes_def js_def includes_char_def colon_def Number_def trim_def is_str_whitespace_def
  non_decimal_literal_def unsigned_decimal_def is_digit_def decimal_digits_def scale10_def
  isNaN_def to_double_numeral to_double_0 to_double_1

text \<open>
  C3. The claim: parsing succeeds exactly for the strings \<open>H:MM\<close> and \<open>HH:MM\<close> of the
  24-hour clock, with the value \<open>h * 60 + m\<close>, and yields no value on any other string.
  The first half holds (\<open>toMinutes_digits\<close>). The second half fails on the code:
  \<open>toMinutes\<close> checks only that the string has a colon and that the first two fields
  convert to numbers, and the empty string converts to 0. Here it is evaluated on four
  strings that are no times of the 24-hour clock; none of the results is \<open>null\<close>.
\<close>

theorem toMinutes_accepts_invalid:
  "toMinutes (Some (js '':'')) = Some (Num 0)
   \<and> toMinutes (Some (js ''25:99'')) = Some (Num 1599)
   \<and> toMinutes (Some (js ''9:5'')) = Some (Num 545)
   \<and> toMinutes (Some (js ''1:2:3'')) = Some (Num 62)"
  by (simp add: Number_eval)

subsection \<open>The overlap predicate\<close>

lemma js_less_NaN [simp]: "\<not> js_less NaN x" "\<not> js_less x NaN"
  by (cases x; simp)+

text \<open>
  C9. The pairwise overlap predicate is symmetric: \<open>overlaps(A, B) == overlaps(B, A)\<close> for
  all sessions A and B.
\<close>

theorem overlaps_symmetric: "overlaps a b = overlaps b a"
  by (auto simp: overlaps_def split: option.splits)

text \<open>A session without a proper interval overlaps nothing, on either side.\<close>

lemma marker_never_overlaps:
  assumes "toMinutes (start s) = None \<or> toMinutes (end_time s) = None \<or>
           toMinutes (start s) = toMinutes (end_time s)"
  shows "\<not> overlaps s t" and "\<not> overlaps t s"
proof -
  show "\<not> overlaps s t" using assms
    by (auto simp: overlaps_def js_strict_eq_def split: option.splits)
  show "\<not> overlaps t s" using assms
    by (auto simp: overlaps_def js_strict_eq_def split: option.splits)
qed

subsection \<open>The conflict set\<close>

lemma set_Set_add [simp]: "set (Set_add x s) = insert x (set s)"
  by (auto simp: Set_add_def)

lemma findConflicts_inner_sound:
  "x \<in> set (findConflicts_inner si rest c) \<Longrightarrow>
   x \<in> set c \<or> (\<exists>sj \<in> set rest. overlaps si sj \<and> (x = session_id si \<or> x = session_id sj))"
  by (induction rest arbitrary: c) (fastforce split: if_splits)+

lemma findConflicts_outer_sound:
  "x \<in> set (findConflicts_outer ss c) \<Longrightarrow>
   x \<in> set c \<or>
   (\<exists>a \<in> set ss. \<exists>b \<in> set ss. overlaps a b \<and> (x = session_id a \<or> x = session_id b))"
proof (induction ss arbitrary: c)
  case Nil
  then show ?case by simp
next
  case (Cons s ss)
  from Cons.prems have "x \<in> set (findConflicts_outer ss (findConflicts_inner s ss c))"
    by simp
  from Cons.IH[OF this] show ?case
  proof
    assume "x \<in> set (findConflicts_inner s ss c)"
    from findConflicts_inner_sound[OF this] show ?thesis by auto
  next
    assume "\<exists>a\<in>set ss. \<exists>b\<in>set ss. overlaps a b \<and> (x = session_id a \<or> x = session_id b)"
    then show ?thesis by auto
  qed
qed

text \<open>Every identifier of the result belongs to a session of an overlapping pair.\<close>

lemma findConflicts_sound:
  "x \<in> set (findConflicts ss) \<Longrightarrow>
   \<exists>a \<in> set ss. \<exists>b \<in> set ss. overlaps a b \<and> (x = session_id a \<or> x = session_id b)"
  using findConflicts_outer_sound[of x ss "[]"] by (simp add: findConflicts_def)

lemma clock_times:
  "toMinutes (Some (js ''09:00'')) = Some (Num 540)"
  "toMinutes (Some (js ''10:00'')) = Some (Num 600)"
  "toMinutes (Some (js ''09:30'')) = Some (Num 570)"
  "toMinutes (Some (js ''10:30'')) = Some (Num 630)"
  "toMinutes (Some (js ''11:30'')) = Some (Num 690)"
  "toMinutes None = None"
  by (simp_all add: Number_eval)

text \<open>
  The part of the conflict claim that the code keeps: a session of the list that is missing
  its start or end time, for whose start or end time \<open>toMinutes\<close> returns \<open>null\<close>, or whose
  start and end are the same string or the same number of minutes, is not in the result,
  whatever the other sessions are. Sessions are told apart by their identifiers, which the
  result holds.
\<close>

lemma findConflicts_excludes_rejected_times:
  assumes "s \<in> set sessions"
    and "start s = None \<or> end_time s = None \<or> toMinutes (start s) = None \<or>
         toMinutes (end_time s) = None \<or> start s = end_time s \<or>
         toMinutes (start s) = toMinutes (end_time s)"
    and "\<forall>t \<in> set sessions. session_id t = session_id s \<longrightarrow> t = s"
  shows "session_id s \<notin> set (findConflicts sessions)"
proof
  assume "session_id s \<in> set (findConflicts sessions)"
  then obtain a b where ab: "a \<in> set sessions" "b \<in> set sessions" "overlaps a b"
      "session_id s = session_id a \<or> session_id s = session_id b"
    using findConflicts_sound by blast
  have marker: "toMinutes (start s) = None \<or> toMinutes (end_time s) = None \<or>
                toMinutes (start s) = toMinutes (end_time s)"
    using assms(2) by (auto simp: toMinutes_def)
  from ab assms(3) have "a = s \<or> b = s" by metis
  with ab(3) marker_never_overlaps[OF marker] show False by auto
qed

lemma lenient_times:
  "toMinutes (Some (js '':'')) = Some (Num 0)"
  "toMinutes (Some (js ''1:'')) = Some (Num 60)"
  "toMinutes (Some (js ''0:30'')) = Some (Num 30)"
  "toMinutes (Some (js ''0:45'')) = Some (Num 45)"
  "toMinutes (Some (js ''9:'')) = Some (Num 540)"
  "toMinutes (Some (js ''4:05'')) = Some (Num 245)"
  "toMinutes (Some (js ''4:06'')) = Some (Num 246)"
  "toMinutes (Some (js ''4:07'')) = Some (Num 247)"
  by (simp_all add: Number_eval)

text \<open>
  C4. The claim: for every list of sessions, a session that is missing its start or end
  time, whose start or end time fails to parse, or whose start time equals its end time
  never appears in the conflict-detection result. \<open>overlaps\<close> returns \<open>false\<close> as soon as
  \<open>toMinutes\<close> returns \<open>null\<close> for one of the four times, and \<open>toMinutes\<close> is documented to
  return \<open>null\<close> on an invalid string; but it accepts strings that are no \<open>H:MM\<close> or \<open>HH:MM\<close>
  times, so a session with such a time is reported. Here the detector is evaluated on
  three lists of two sessions with distinct identifiers: in the first, session \<open>a\<close> runs
  from \<open>:\<close> to \<open>1:\<close>, read as minutes 0 to 60; in the second, from \<open>9:\<close> to \<open>10:00\<close>, read as
  minutes 540 to 600; in the third, from \<open>4.1:0\<close> to \<open>4:06\<close>, read as minutes
  \<open>245.99999999999997\<close> to 246. Each time session \<open>a\<close> is in the result.
\<close>

theorem findConflicts_reports_unparsable:
  "findConflicts
     [\<lparr>session_id = js ''a'', start = Some (js '':''), end_time = Some (js ''1:'')\<rparr>,
      \<lparr>session_id = js ''b'', start = Some (js ''0:30''), end_time = Some (js ''0:45'')\<rparr>]
   = [js ''a'', js ''b'']
   \<and> findConflicts
     [\<lparr>session_id = js ''a'', start = Some (js ''9:''), end_time = Some (js ''10:00'')\<rparr>,
      \<lparr>session_id = js ''b'', start = Some (js ''09:30''), end_time = Some (js ''10:30'')\<rparr>]
   = [js ''a'', js ''b'']
   \<and> findConflicts
     [\<lparr>session_id = js ''a'', start = Some (js ''4.1:0''), end_time = Some (js ''4:06'')\<rparr>,
      \<lparr>session_id = js ''b'', start = Some (js ''4:05''), end_time = Some (js ''4:07'')\<rparr>]
   = [js ''a'', js ''b'']"
  unfolding findConflicts_def findConflicts_outer.simps findConflicts_inner.simps
  by (simp add: overlaps_def clock_times lenient_times toMinutes_rounds js_strict_eq_def
      Set_add_def)
    (simp add: js_def)



section \<open>Properties of the encoding helpers\<close>

subsection \<open>Code units and numbers\<close>

lemma unat_of_nat16: "n < 65536 \<Longrightarrow> unat (of_nat n :: 16 word) = n"
  by (simp add: unat_of_nat)

lemma unat_lt_65536: "unat (c :: 16 word) < 65536"
  using unsigned_less[of c, where 'a = nat] by simp

lemmas word_cmp = word_le_nat_alt word_less_nat_alt

lemma of_nat_eq_iff16:
  "m < 65536 \<Longrightarrow> n < 65536 \<Longrightarrow> (of_nat m :: 16 word) = of_nat n \<longleftrightarrow> m = n"
  by (metis unat_of_nat16)

subsection \<open>Hexadecimal digits\<close>

lemma unat_hex_upper: "n < 16 \<Longrightarrow> unat (hex_upper n) = (if n < 10 then 48 + n else 55 + n)"
  by (simp add: hex_upper_def unat_word_ariths unat_of_nat)

lemma unat_hex_lower: "n < 16 \<Longrightarrow> unat (hex_lower n) = (if n < 10 then 48 + n else 87 + n)"
  by (simp add: hex_lower_def unat_word_ariths unat_of_nat)

lemma hex_value_upper: "n < 16 \<Longrightarrow> hex_value (hex_upper n) = Some n"
  by (auto simp: hex_value_def digit_in_def word_cmp unat_hex_upper)

lemma hex_value_lower: "n < 16 \<Longrightarrow> hex_value (hex_lower n) = Some n"
  by (auto simp: hex_value_def digit_in_def word_cmp unat_hex_lower)

lemma is_hex_upper: "n < 16 \<Longrightarrow> is_hex (hex_upper n)"
  by (simp add: is_hex_def hex_value_upper)

lemma is_hex_lower: "n < 16 \<Longrightarrow> is_hex (hex_lower n)"
  by (simp add: is_hex_def hex_value_lower)

lemma hex_upper_not_u: "n < 16 \<Longrightarrow> hex_upper n \<noteq> 0x75"
  using unat_hex_upper[of n] by (auto split: if_splits)

lemma hex_number2_upper:
  "b < 256 \<Longrightarrow> hex_number [hex_upper (b div 16), hex_upper (b mod 16)] = b"
  by (simp add: hex_number_def hex_value_upper)

lemma hex_number4_lower:
  "n < 65536 \<Longrightarrow>
   hex_number [hex_lower (n div 4096), hex_lower (n div 256 mod 16),
               hex_lower (n div 16 mod 16), hex_lower (n mod 16)] = n"
proof -
  assume "n < 65536"
  have d: "n div 256 = n div 16 div 16" "n div 4096 = n div 16 div 16 div 16"
    by (simp_all add: div_mult2_eq)
  have "4096 * (n div 4096) + 256 * (n div 256 mod 16) + 16 * (n div 16 mod 16) + n mod 16 = n"
    unfolding d
    using div_mult_mod_eq[of n 16] div_mult_mod_eq[of "n div 16" 16]
      div_mult_mod_eq[of "n div 16 div 16" 16]
    by linarith
  moreover have "n div 4096 < 16"
    using \<open>n < 65536\<close> by (simp add: less_mult_imp_div_less)
  ultimately show ?thesis by (simp add: hex_number_def hex_value_lower)
qed


subsection \<open>Well-formed strings and their UTF-8 octets\<close>

lemma not_both_surrogates: "is_high_surrogate c \<Longrightarrow> \<not> is_low_surrogate c"
  by (auto simp: is_high_surrogate_def is_low_surrogate_def word_cmp)

lemma pair_code_point_range:
  "is_high_surrogate c \<Longrightarrow> is_low_surrogate d \<Longrightarrow>
   0x10000 \<le> pair_code_point c d \<and> pair_code_point c d < 0x110000"
  by (auto simp: is_high_surrogate_def is_low_surrogate_def pair_code_point_def word_cmp)

lemma utf8_octets_bytes: "cp < 0x110000 \<Longrightarrow> list_all (\<lambda>b. b < 256) (utf8_octets cp)"
  by (auto simp: utf8_octets_def less_mult_imp_div_less)

lemma usv_octets_bytes: "list_all (\<lambda>b. b < 256) (usv_octets s)"
proof (induction s rule: usv_octets.induct)
  case 1
  then show ?case by simp
next
  case (2 c cs)
  have u: "list_all (\<lambda>b. b < 256) (utf8_octets (unat c))"
    using unat_lt_65536[of c] by (intro utf8_octets_bytes) simp
  have r: "list_all (\<lambda>b. b < 256) (utf8_octets 0xFFFD)"
    by (intro utf8_octets_bytes) simp
  show ?case
  proof (cases cs)
    case Nil
    then show ?thesis using 2 u r by simp
  next
    case (Cons d ds)
    then show ?thesis
      using 2 u r utf8_octets_bytes[of "pair_code_point c d"] pair_code_point_range[of c d]
      by auto
  qed
qed


subsection \<open>\<open>unescape\<close> after \<open>encodeURIComponent\<close>\<close>

lemma unescape_literal: "c \<noteq> 0x25 \<Longrightarrow> unescape (c # cs) = c # unescape cs"
  by simp

lemma unescape_hex2:
  assumes "is_hex h1" "is_hex h2" "h1 \<noteq> 0x75"
  shows "unescape (0x25 # h1 # h2 # rest) = of_nat (hex_number [h1, h2]) # unescape rest"
  using assms by (simp split: list.splits)

lemma unescape_percent_octet:
  assumes "b < 256"
  shows "unescape (percent_octet b @ rest) = of_nat b # unescape rest"
proof -
  have d: "b div 16 < 16" "b mod 16 < 16"
    using assms by (simp_all add: less_mult_imp_div_less)
  have "unescape (0x25 # hex_upper (b div 16) # hex_upper (b mod 16) # rest) =
        of_nat (hex_number [hex_upper (b div 16), hex_upper (b mod 16)]) # unescape rest"
    using d by (intro unescape_hex2 is_hex_upper hex_upper_not_u)
  then show ?thesis
    using assms by (simp add: percent_octet_def hex_number2_upper del: unescape.simps)
qed

lemma unescape_percent_octets:
  "list_all (\<lambda>b. b < 256) bs \<Longrightarrow>
   unescape (concat (map percent_octet bs) @ rest) = map of_nat bs @ unescape rest"
  by (induction bs) (simp_all add: unescape_percent_octet del: unescape.simps)

lemma uri_unreserved_ascii:
  assumes "uri_unreserved c"
  shows "unat c < 128" "c \<noteq> 0x25" "\<not> is_high_surrogate c" "\<not> is_low_surrogate c"
  using assms
  by (auto simp: uri_unreserved_def is_alnum_def is_high_surrogate_def is_low_surrogate_def
      word_cmp)

lemma usv_octets_plain:
  "\<not> is_high_surrogate c \<Longrightarrow> \<not> is_low_surrogate c \<Longrightarrow>
   usv_octets (c # cs) = utf8_octets (unat c) @ usv_octets cs"
  by simp

lemma usv_octets_pair:
  "is_high_surrogate c \<Longrightarrow> is_low_surrogate d \<Longrightarrow>
   usv_octets (c # d # cs) = utf8_octets (pair_code_point c d) @ usv_octets cs"
  by simp

lemma encodeURIComponent_plain:
  "\<not> uri_unreserved c \<Longrightarrow> \<not> is_high_surrogate c \<Longrightarrow> \<not> is_low_surrogate c \<Longrightarrow>
   encodeURIComponent (c # cs) =
   prepend (concat (map percent_octet (utf8_octets (unat c)))) (encodeURIComponent cs)"
  by simp

lemma encodeURIComponent_unreserved:
  "uri_unreserved c \<Longrightarrow> encodeURIComponent (c # cs) = prepend [c] (encodeURIComponent cs)"
  by simp

lemma encodeURIComponent_pair:
  "is_high_surrogate c \<Longrightarrow> is_low_surrogate d \<Longrightarrow>
   encodeURIComponent (c # d # cs) =
   prepend (concat (map percent_octet (utf8_octets (pair_code_point c d)))) (encodeURIComponent cs)"
  using uri_unreserved_ascii(3)[of c] by auto

text \<open>
  On a well-formed string \<open>encodeURIComponent\<close> does not raise, and \<open>unescape\<close> turns its
  result into the UTF-8 octets of the string, one code unit each.
\<close>

lemma unescape_encodeURIComponent:
  "well_formed s \<Longrightarrow>
   (case encodeURIComponent s of
      Inl e \<Rightarrow> False
    | Inr u \<Rightarrow> unescape u = map of_nat (usv_octets s))"
proof (induction s rule: well_formed.induct)
  case 1
  then show ?case by simp
next
  case (2 c)
  have b: "list_all (\<lambda>b. b < 256) (utf8_octets (unat c))"
    using unat_lt_65536[of c] by (intro utf8_octets_bytes) simp
  show ?case
  proof (cases "uri_unreserved c")
    case True
    then show ?thesis
      using uri_unreserved_ascii[OF True]
      by (simp add: prepend_def utf8_octets_def)
  next
    case False
    with 2 show ?thesis
      using unescape_percent_octets[OF b, of "[]"]
      by (simp add: prepend_def)
  qed
next
  case (3 c d cs)
  show ?case
  proof (cases "is_high_surrogate c")
    case True
    with 3 have low: "is_low_surrogate d" and wf: "well_formed cs" by simp_all
    have b: "list_all (\<lambda>b. b < 256) (utf8_octets (pair_code_point c d))"
      using pair_code_point_range[OF True low] by (intro utf8_octets_bytes) simp
    from 3(1)[OF True wf] show ?thesis
      using unescape_percent_octets[OF b]
      by (simp only: encodeURIComponent_pair[OF True low] usv_octets_pair[OF True low])
        (simp add: prepend_def split: sum.splits del: unescape.simps)
  next
    case False
    with 3 have nl: "\<not> is_low_surrogate c" and wf: "well_formed (d # cs)" by simp_all
    have b: "list_all (\<lambda>b. b < 256) (utf8_octets (unat c))"
      using unat_lt_65536[of c] by (intro utf8_octets_bytes) simp
    show ?thesis
    proof (cases "uri_unreserved c")
      case True
      from 3(2)[OF False wf] show ?thesis
        using uri_unreserved_ascii[OF True]
        by (simp only: encodeURIComponent_unreserved[OF True] usv_octets_plain[OF False nl])
          (simp add: prepend_def utf8_octets_def unescape_literal split: sum.splits del: unescape.simps usv_octets.simps encodeURIComponent.simps)
    next
      case u: False
      from 3(2)[OF False wf] show ?thesis
        using unescape_percent_octets[OF b]
        by (simp only: encodeURIComponent_plain[OF u False nl] usv_octets_plain[OF False nl])
          (simp add: prepend_def split: sum.splits del: unescape.simps usv_octets.simps encodeURIComponent.simps)
    qed
  qed
qed


subsection \<open>\<open>JSON.stringify\<close> yields well-formed strings\<close>

lemma well_formed_Cons_plain:
  "\<not> is_surrogate c \<Longrightarrow> well_formed (c # s) = well_formed s"
  by (cases s) (auto simp: is_surrogate_def)

lemma well_formed_pair:
  "is_high_surrogate c \<Longrightarrow> well_formed (c # d # s) = (is_low_surrogate d \<and> well_formed s)"
  by simp

lemma well_formed_single [simp]: "\<not> is_surrogate c \<Longrightarrow> well_formed [c]"
  by (simp add: is_surrogate_def)

lemma well_formed_plain: "list_all (\<lambda>c. \<not> is_surrogate c) s \<Longrightarrow> well_formed s"
  by (induction s) (simp_all add: well_formed_Cons_plain)

lemma well_formed_append: "well_formed a \<Longrightarrow> well_formed b \<Longrightarrow> well_formed (a @ b)"
proof (induction a rule: well_formed.induct)
  case 1
  then show ?case by simp
next
  case (2 c)
  then show ?case by (simp add: well_formed_Cons_plain is_surrogate_def)
next
  case (3 c d cs)
  then show ?case by (cases "is_high_surrogate c") auto
qed

lemma hex_lower_plain: "n < 16 \<Longrightarrow> \<not> is_surrogate (hex_lower n)"
  using unat_hex_lower[of n]
  by (auto simp: is_surrogate_def is_high_surrogate_def is_low_surrogate_def word_cmp
      split: if_splits)

lemma unat_div_4096: "unat (c :: 16 word) div 4096 < 16"
  using unat_lt_65536[of c] by (simp add: less_mult_imp_div_less)

lemma unicode_escape_plain: "list_all (\<lambda>c. \<not> is_surrogate c) (unicode_escape c)"
  by (simp add: unicode_escape_def hex_lower_plain unat_div_4096)
    (simp add: is_surrogate_def is_high_surrogate_def is_low_surrogate_def)

lemma well_formed_quote_unit: "well_formed (quote_unit c)"
proof (cases "is_surrogate c")
  case True
  then have "quote_unit c = unicode_escape c"
    by (auto simp: quote_unit_def is_surrogate_def is_high_surrogate_def is_low_surrogate_def
        word_cmp)
  then show ?thesis by (simp add: well_formed_plain unicode_escape_plain)
next
  case False
  have "list_all (\<lambda>c. \<not> is_surrogate c) (quote_unit c)"
    using False unicode_escape_plain[of c]
    by (auto simp: quote_unit_def is_surrogate_def is_high_surrogate_def is_low_surrogate_def)
  then show ?thesis by (rule well_formed_plain)
qed

lemma well_formed_quote_body: "well_formed (quote_body s)"
  by (induction s rule: quote_body.induct)
    (auto simp: well_formed_quote_unit well_formed_append)

lemma well_formed_QuoteJSONString: "well_formed (QuoteJSONString s)"
proof -
  have q: "\<not> is_surrogate 0x22"
    by (simp add: is_surrogate_def is_high_surrogate_def is_low_surrogate_def)
  have "well_formed (quote_body s @ [0x22])"
    using q by (intro well_formed_append well_formed_quote_body well_formed_single)
  then show ?thesis
    using q by (simp add: QuoteJSONString_def well_formed_Cons_plain)
qed

lemma well_formed_join_comma:
  "list_all well_formed qs \<Longrightarrow> well_formed (join_comma qs)"
proof (induction qs rule: join_comma.induct)
  case (3 x y ys)
  have "\<not> is_surrogate 0x2C"
    by (simp add: is_surrogate_def is_high_surrogate_def is_low_surrogate_def)
  then have "well_formed (0x2C # join_comma (y # ys))"
    using 3 by (simp add: well_formed_Cons_plain)
  then show ?case using 3 by (simp add: well_formed_append)
qed simp_all

lemma well_formed_JSON_stringify: "well_formed (JSON_stringify xs)"
proof -
  have p: "\<not> is_surrogate 0x5B" "\<not> is_surrogate 0x5D"
    by (simp_all add: is_surrogate_def is_high_surrogate_def is_low_surrogate_def)
  have "well_formed (join_comma (map QuoteJSONString xs))"
    by (intro well_formed_join_comma) (simp add: list_all_iff well_formed_QuoteJSONString)
  then have "well_formed (join_comma (map QuoteJSONString xs) @ [0x5D])"
    using p by (intro well_formed_append well_formed_single)
  then show ?thesis
    using p by (simp add: JSON_stringify_def well_formed_Cons_plain)
qed

subsection \<open>\<open>encodeStarred\<close> does not raise\<close>

lemma btoa_octets:
  "list_all (\<lambda>b. b < 256) bs \<Longrightarrow> btoa (map of_nat bs) = Inr (b64_encode bs)"
proof -
  assume a: "list_all (\<lambda>b. b < 256) bs"
  then have "list_all (\<lambda>c. c \<le> 0xFF) (map of_nat bs :: jsstring)"
    by (induction bs) (simp_all add: word_cmp unat_of_nat16)
  moreover from a have "map unat (map of_nat bs :: jsstring) = bs"
    by (induction bs) (simp_all add: unat_of_nat16)
  ultimately show ?thesis by (simp add: btoa_def)
qed

lemma encodeStarred_value:
  "ids \<noteq> [] \<Longrightarrow>
   encodeStarred ids =
   Inr (strip_trailing_eq (replace_all 0x2F 0x5F (replace_all 0x2B 0x2D
          (b64_encode (usv_octets (JSON_stringify (sort ids)))))))"
proof -
  assume "ids \<noteq> []"
  obtain u where u: "encodeURIComponent (JSON_stringify (sort ids)) = Inr u"
      "unescape u = map of_nat (usv_octets (JSON_stringify (sort ids)))"
    using unescape_encodeURIComponent[OF well_formed_JSON_stringify, of "sort ids"]
    by (auto split: sum.splits)
  show ?thesis
    using \<open>ids \<noteq> []\<close>
    by (simp add: encodeStarred_def u btoa_octets usv_octets_bytes)
qed

lemma encodeStarred_returns: "\<exists>encoded. encodeStarred ids = Inr encoded"
  by (cases "ids = []") (simp_all add: encodeStarred_value, simp add: encodeStarred_def)

subsection \<open>Base64\<close>

lemma sextets_bound: "list_all (\<lambda>b. b < 256) bs \<Longrightarrow> list_all (\<lambda>i. i < 64) (sextets bs)"
proof (induction bs rule: sextets.induct)
  case (2 a)
  then show ?case by (simp add: less_mult_imp_div_less)
next
  case (3 a b)
  have "b div 16 < 16" "a div 4 < 64" using 3 by (simp_all add: less_mult_imp_div_less)
  moreover have "a mod 4 * 16 \<le> 48" "b mod 16 * 4 \<le> 60" by linarith+
  ultimately show ?case by simp
next
  case (4 a b c rest)
  have "b div 16 < 16" "a div 4 < 64" "c div 64 < 4"
    using 4 by (simp_all add: less_mult_imp_div_less)
  moreover have "a mod 4 * 16 \<le> 48" "b mod 16 * 4 \<le> 60" by linarith+
  ultimately show ?case using 4 by simp
qed simp

lemma b64_decode_sextets: "list_all (\<lambda>b. b < 256) bs \<Longrightarrow> b64_decode (sextets bs) = bs"
proof (induction bs rule: sextets.induct)
  case (2 a)
  then show ?case by simp
next
  case (3 a b)
  then have "b div 16 < 16" by (simp add: less_mult_imp_div_less)
  then show ?case by simp
next
  case (4 a b c rest)
  then have "b div 16 < 16" "c div 64 < 4" by (simp_all add: less_mult_imp_div_less)
  then show ?case using 4 by simp
qed simp

lemma length_sextets_mod4: "length (sextets bs) mod 4 \<noteq> 1"
  by (induction bs rule: sextets.induct) simp_all

lemma sextets_empty: "sextets bs = [] \<longleftrightarrow> bs = []"
  by (cases bs rule: sextets.cases) simp_all


lemma unat_b64_char:
  "i < 64 \<Longrightarrow>
   unat (b64_char i) =
     (if i < 26 then 65 + i else if i < 52 then 71 + i else if i < 62 then i - 4
      else if i = 62 then 43 else 47)"
  unfolding b64_char_def by (subst unat_of_nat16) auto

lemma word_is_numeral: "(c :: 16 word) = numeral n \<longleftrightarrow> unat c = unat (numeral n :: 16 word)"
  by (simp add: word_unat_eq_iff)

lemma b64_value_unat:
  "b64_value c =
     (if 65 \<le> unat c \<and> unat c \<le> 90 then Some (unat c - 65)
      else if 97 \<le> unat c \<and> unat c \<le> 122 then Some (unat c - 71)
      else if 48 \<le> unat c \<and> unat c \<le> 57 then Some (unat c + 4)
      else if unat c = 43 then Some 62
      else if unat c = 47 then Some 63
      else None)"
  by (simp add: b64_value_def word_cmp word_is_numeral)

lemma b64_value_b64_char: "i < 64 \<Longrightarrow> b64_value (b64_char i) = Some i"
proof -
  assume "i < 64"
  then consider "i < 26" | "26 \<le> i \<and> i < 52" | "52 \<le> i \<and> i < 62" | "i = 62" | "i = 63"
    by linarith
  then show ?thesis
    by cases (auto simp: b64_value_unat unat_b64_char)
qed

lemma b64_char_clean:
  assumes "i < 64"
  shows "b64_char i \<noteq> 0x3D" "\<not> is_ascii_whitespace (b64_char i)"
    "b64_char i \<noteq> 0x2D" "b64_char i \<noteq> 0x5F"
proof -
  have u: "unat (b64_char i) \<notin> {0x3D, 0x2D, 0x5F, 0x09, 0x0A, 0x0C, 0x0D, 0x20}"
    using assms unat_b64_char[of i] by (auto split: if_splits)
  show "b64_char i \<noteq> 0x3D" "b64_char i \<noteq> 0x2D" "b64_char i \<noteq> 0x5F"
    using u by (auto simp: word_is_numeral)
  show "\<not> is_ascii_whitespace (b64_char i)"
    using u by (auto simp: is_ascii_whitespace_def word_is_numeral)
qed


lemma those_b64_value:
  "list_all (\<lambda>i. i < 64) vs \<Longrightarrow> those (map b64_value (map b64_char vs)) = Some vs"
  by (induction vs) (simp_all add: b64_value_b64_char)

lemma strip_trailing_eq_padding:
  "0x3D \<notin> set s \<Longrightarrow> strip_trailing_eq (s @ replicate k 0x3D) = s"
proof -
  assume a: "0x3D \<notin> set s"
  have "dropWhile (\<lambda>c. c = 0x3D) (replicate k (0x3D :: 16 word) @ rev s) = rev s"
  proof (induction k)
    case 0
    show ?case using a by (cases "rev s") (auto simp: rev_eq_Cons_iff)
  qed simp
  then show ?thesis by (simp add: strip_trailing_eq_def)
qed

lemma replace_all_append: "replace_all a b (s @ r) = replace_all a b s @ replace_all a b r"
  by (simp add: replace_all_def)

lemma replace_all_replicate: "c \<noteq> a \<Longrightarrow> replace_all a b (replicate k c) = replicate k c"
  by (simp add: replace_all_def)

lemma url_safe_round_trip:
  "0x2D \<notin> set s \<Longrightarrow> 0x5F \<notin> set s \<Longrightarrow>
   replace_all 0x5F 0x2F (replace_all 0x2D 0x2B (replace_all 0x2F 0x5F (replace_all 0x2B 0x2D s))) = s"
  by (induction s) (auto simp: replace_all_def)

lemma url_safe_no_padding:
  "0x3D \<notin> set s \<Longrightarrow> 0x3D \<notin> set (replace_all 0x2F 0x5F (replace_all 0x2B 0x2D s))"
  by (induction s) (auto simp: replace_all_def)

lemma atob_clean:
  assumes "list_all (\<lambda>c. \<not> is_ascii_whitespace c) d" "0x3D \<notin> set d"
    and "length d mod 4 \<noteq> 1" "those (map b64_value d) = Some vs"
  shows "atob d = Inr (map of_nat (b64_decode vs))"
proof -
  have f: "filter (\<lambda>c. \<not> is_ascii_whitespace c) d = d"
    using assms(1) by (induction d) auto
  have "d \<noteq> [] \<Longrightarrow> last d \<noteq> 0x3D" using assms(2) last_in_set by metis
  then have s: "strip_padding d = d" by (auto simp: strip_padding_def)
  show ?thesis using assms(3,4) by (simp add: atob_def f s Let_def)
qed

lemma strip_url_safe_b64_encode:
  assumes "list_all (\<lambda>b. b < 256) bs"
  shows "strip_trailing_eq (replace_all 0x2F 0x5F (replace_all 0x2B 0x2D (b64_encode bs))) =
         replace_all 0x2F 0x5F (replace_all 0x2B 0x2D (map b64_char (sextets bs)))"
proof -
  let ?core = "map b64_char (sextets bs)"
  have "list_all (\<lambda>i. i < 64) (sextets bs)" using assms by (rule sextets_bound)
  then have clean: "0x3D \<notin> set ?core"
    using b64_char_clean by (auto simp: list_all_iff)
  have "replace_all 0x2F 0x5F (replace_all 0x2B 0x2D (b64_encode bs)) =
        replace_all 0x2F 0x5F (replace_all 0x2B 0x2D ?core)
          @ replicate ((3 - length bs mod 3) mod 3) 0x3D"
    by (simp add: b64_encode_def replace_all_append replace_all_replicate)
  then show ?thesis
    using url_safe_no_padding[OF clean] by (simp add: strip_trailing_eq_padding)
qed

text \<open>
  The forgiving decoder reads back what \<open>btoa\<close> wrote, after the replacement of \<open>+\<close> and
  \<open>/\<close> and without the padding.
\<close>

lemma atob_url_safe_b64_encode:
  assumes "list_all (\<lambda>b. b < 256) bs"
  shows "atob (replace_all 0x5F 0x2F (replace_all 0x2D 0x2B
           (strip_trailing_eq (replace_all 0x2F 0x5F (replace_all 0x2B 0x2D (b64_encode bs))))))
         = Inr (map of_nat bs)"
proof -
  let ?core = "map b64_char (sextets bs)"
  have six: "list_all (\<lambda>i. i < 64) (sextets bs)" using assms by (rule sextets_bound)
  then have clean: "0x3D \<notin> set ?core" "0x2D \<notin> set ?core" "0x5F \<notin> set ?core"
      "list_all (\<lambda>c. \<not> is_ascii_whitespace c) ?core"
    using b64_char_clean by (auto simp: list_all_iff)
  have "replace_all 0x5F 0x2F (replace_all 0x2D 0x2B
           (strip_trailing_eq (replace_all 0x2F 0x5F (replace_all 0x2B 0x2D (b64_encode bs)))))
         = ?core"
    using url_safe_round_trip[OF clean(2,3)] assms by (simp add: strip_url_safe_b64_encode)
  moreover have "atob ?core = Inr (map of_nat (b64_decode (sextets bs)))"
    using clean(4) clean(1) length_sextets_mod4[of bs] those_b64_value[OF six]
    by (intro atob_clean) simp_all
  ultimately show ?thesis using assms by (simp add: b64_decode_sextets)
qed

lemma url_safe_b64_encode_nonempty:
  assumes "list_all (\<lambda>b. b < 256) bs" "bs \<noteq> []"
  shows "strip_trailing_eq (replace_all 0x2F 0x5F (replace_all 0x2B 0x2D (b64_encode bs))) \<noteq> []"
  using assms by (simp add: strip_url_safe_b64_encode) (simp add: replace_all_def sextets_empty)

lemma b64_char_alphabet:
  assumes "i < 64"
  shows "is_alnum (b64_char i) \<or> b64_char i = 0x2B \<or> b64_char i = 0x2F"
proof -
  from assms consider "i < 26" | "26 \<le> i \<and> i < 52" | "52 \<le> i \<and> i < 62" | "i = 62" | "i = 63"
    by linarith
  then show ?thesis
    using assms by cases (auto simp: is_alnum_def word_cmp word_is_numeral unat_b64_char)
qed

text \<open>
  The encoding consists of letters, digits, \<open>-\<close> and \<open>_\<close>: characters that a URL fragment
  keeps as they are.
\<close>

lemma encodeStarred_alphabet:
  assumes "encodeStarred ids = Inr encoded"
  shows "list_all (\<lambda>c. is_alnum c \<or> c = 0x2D \<or> c = 0x5F) encoded"
proof (cases "ids = []")
  case True
  then show ?thesis using assms by (simp add: encodeStarred_def)
next
  case False
  let ?six = "sextets (usv_octets (JSON_stringify (sort ids)))"
  have "list_all (\<lambda>i. i < 64) ?six" using usv_octets_bytes by (rule sextets_bound)
  then have "list_all (\<lambda>c. is_alnum c \<or> c = 0x2D \<or> c = 0x5F)
               (replace_all 0x2F 0x5F (replace_all 0x2B 0x2D (map b64_char ?six)))"
    using b64_char_alphabet by (auto simp: list_all_iff replace_all_def)
  moreover have "encoded = replace_all 0x2F 0x5F (replace_all 0x2B 0x2D (map b64_char ?six))"
    using assms encodeStarred_value[OF False]
    by (simp add: strip_url_safe_b64_encode usv_octets_bytes)
  ultimately show ?thesis by simp
qed

subsection \<open>\<open>decodeURIComponent\<close> after \<open>escape\<close>\<close>

lemma escape_unreserved_ascii:
  assumes "escape_unreserved c"
  shows "unat c < 128" "c \<noteq> 0x25"
  using assms by (auto simp: escape_unreserved_def is_alnum_def word_cmp)

lemma percent_items_literal:
  "c \<noteq> 0x25 \<Longrightarrow>
   percent_items (c # rest) =
     (case percent_items rest of Inl e \<Rightarrow> Inl e | Inr its \<Rightarrow> Inr (Lit c # its))"
  by simp

lemma percent_items_octet:
  assumes "b < 256"
  shows "percent_items (percent_octet b @ rest) =
     (case percent_items rest of Inl e \<Rightarrow> Inl e | Inr its \<Rightarrow> Inr (Octet b # its))"
proof -
  have "b div 16 < 16" "b mod 16 < 16" using assms by (simp_all add: less_mult_imp_div_less)
  then show ?thesis
    using assms
    by (simp add: percent_octet_def is_hex_upper hex_number2_upper split: sum.splits)
qed

lemma percent_items_escape_unit:
  assumes "b < 256"
  shows "percent_items (escape_unit (of_nat b) @ rest) =
     (case percent_items rest of Inl e \<Rightarrow> Inl e | Inr its \<Rightarrow> Inr (octet_item b # its))"
proof (cases "escape_unreserved (of_nat b :: 16 word)")
  case True
  then have "octet_item b = Lit (of_nat b)" by (simp add: octet_item_def)
  then show ?thesis
    using escape_unreserved_ascii(2)[OF True] True
    by (simp add: escape_unit_def percent_items_literal del: percent_items.simps
        split: sum.splits)
next
  case False
  have "(of_nat b :: 16 word) < 0x100"
    using assms by (simp add: word_cmp unat_of_nat16)
  moreover have "unat (of_nat b :: 16 word) = b" using assms by (simp add: unat_of_nat16)
  moreover have "octet_item b = Octet b" using False by (simp add: octet_item_def)
  ultimately show ?thesis
    using False assms
    by (simp add: escape_unit_def percent_items_octet del: percent_items.simps
        split: sum.splits)
qed

lemma percent_items_escape:
  "list_all (\<lambda>b. b < 256) bs \<Longrightarrow>
   percent_items (escape (map of_nat bs)) = Inr (map octet_item bs)"
proof (induction bs)
  case Nil
  then show ?case by (simp add: escape_def)
next
  case (Cons b bs)
  then have "percent_items (escape (map of_nat bs)) = Inr (map octet_item bs)" by simp
  moreover have "escape (map of_nat (b # bs)) = escape_unit (of_nat b) @ escape (map of_nat bs)"
    by (simp add: escape_def)
  ultimately show ?case using Cons.prems by (simp add: percent_items_escape_unit)
qed


lemma octet_item_high: "0x80 \<le> b \<Longrightarrow> b < 256 \<Longrightarrow> octet_item b = Octet b"
proof -
  assume "0x80 \<le> b" "b < 256"
  then have "unat (of_nat b :: 16 word) = b" by (simp add: unat_of_nat16)
  then have "\<not> escape_unreserved (of_nat b)"
    using escape_unreserved_ascii(1)[of "of_nat b"] \<open>0x80 \<le> b\<close> by auto
  then show ?thesis by (simp add: octet_item_def)
qed

lemma utf8_items_ascii:
  "b < 0x80 \<Longrightarrow> utf8_items (octet_item b # its) = prepend [of_nat b] (utf8_items its)"
  by (simp add: octet_item_def)

lemma utf8_items_two:
  assumes "0xC2 \<le> b" "b \<le> 0xDF" "is_continuation b1"
  shows "utf8_items (Octet b # Octet b1 # its) =
         prepend (utf16_units ((b - 0xC0) * 64 + (b1 - 0x80))) (utf8_items its)"
  using assms by simp

lemma utf8_items_three:
  assumes "0xE0 \<le> b" "b \<le> 0xEF" "is_continuation b1" "is_continuation b2"
    "b = 0xE0 \<longrightarrow> 0xA0 \<le> b1" "b = 0xED \<longrightarrow> b1 \<le> 0x9F"
  shows "utf8_items (Octet b # Octet b1 # Octet b2 # its) =
         prepend (utf16_units ((b - 0xE0) * 4096 + (b1 - 0x80) * 64 + (b2 - 0x80)))
           (utf8_items its)"
  using assms by simp

lemma utf8_items_four:
  assumes "0xF0 \<le> b" "b \<le> 0xF4" "is_continuation b1" "is_continuation b2"
    "is_continuation b3" "b = 0xF0 \<longrightarrow> 0x90 \<le> b1" "b = 0xF4 \<longrightarrow> b1 \<le> 0x8F"
  shows "utf8_items (Octet b # Octet b1 # Octet b2 # Octet b3 # its) =
         prepend (utf16_units ((b - 0xF0) * 262144 + (b1 - 0x80) * 4096 + (b2 - 0x80) * 64
                                + (b3 - 0x80)))
           (utf8_items its)"
  using assms by simp

lemma continuation_mod: "is_continuation (0x80 + n mod 64)"
  by (simp add: is_continuation_def)

lemma split_64: "(n :: nat) div 64 * 64 + n mod 64 = n"
  by simp

lemma split_4096: "(n :: nat) div 4096 * 4096 + n div 64 mod 64 * 64 + n mod 64 = n"
proof -
  have e: "n div 4096 = n div 64 div 64" by (simp add: div_mult2_eq)
  show ?thesis
    unfolding e
    using div_mult_mod_eq[of n 64] div_mult_mod_eq[of "n div 64" 64] by linarith
qed

lemma split_262144:
  "(n :: nat) div 262144 * 262144 + n div 4096 mod 64 * 4096 + n div 64 mod 64 * 64 + n mod 64 = n"
proof -
  have e: "n div 4096 = n div 64 div 64" "n div 262144 = n div 64 div 64 div 64"
    by (simp_all add: div_mult2_eq)
  show ?thesis
    unfolding e
    using div_mult_mod_eq[of n 64] div_mult_mod_eq[of "n div 64" 64]
      div_mult_mod_eq[of "n div 64 div 64" 64] by linarith
qed

text \<open>The octets of a code point that is no surrogate are read back as that code point.\<close>

lemma utf8_items_code_point:
  assumes "cp < 0x110000" "\<not> (0xD800 \<le> cp \<and> cp \<le> 0xDFFF)"
  shows "utf8_items (map octet_item (utf8_octets cp) @ its) =
         prepend (utf16_units cp) (utf8_items its)"
proof -
  consider "cp < 0x80" | "0x80 \<le> cp \<and> cp < 0x800" | "0x800 \<le> cp \<and> cp < 0x10000"
    | "0x10000 \<le> cp" by linarith
  then show ?thesis
  proof cases
    case 1
    then show ?thesis
      by (simp add: utf8_octets_def utf8_items_ascii utf16_units_def del: utf8_items.simps)
  next
    case 2
    then have d: "2 \<le> cp div 64" "cp div 64 < 32"
      by (simp_all add: less_eq_div_iff_mult_less_eq less_mult_imp_div_less)
    have o: "utf8_octets cp = [0xC0 + cp div 64, 0x80 + cp mod 64]"
      using 2 by (simp add: utf8_octets_def)
    have "utf8_items (Octet (0xC0 + cp div 64) # Octet (0x80 + cp mod 64) # its) =
          prepend (utf16_units ((0xC0 + cp div 64 - 0xC0) * 64 + (0x80 + cp mod 64 - 0x80)))
            (utf8_items its)"
      using d by (intro utf8_items_two continuation_mod) simp_all
    then show ?thesis
      using d by (simp add: o octet_item_high split_64 del: utf8_items.simps)
  next
    case 3
    then have d: "cp div 4096 < 16" by (simp add: less_mult_imp_div_less)
    have o: "utf8_octets cp = [0xE0 + cp div 4096, 0x80 + cp div 64 mod 64, 0x80 + cp mod 64]"
      using 3 by (simp add: utf8_octets_def)
    have lo: "cp div 4096 = 0 \<Longrightarrow> 32 \<le> cp div 64 mod 64"
    proof -
      assume "cp div 4096 = 0"
      then have "cp < 4096" by simp
      then have "cp div 64 < 64" by (simp add: less_mult_imp_div_less)
      moreover have "32 \<le> cp div 64" using 3 by (simp add: less_eq_div_iff_mult_less_eq)
      ultimately show ?thesis by simp
    qed
    have hi: "cp div 4096 = 13 \<Longrightarrow> cp div 64 mod 64 \<le> 31"
    proof -
      assume a: "cp div 4096 = 13"
      have "cp div 4096 < 14" using a by simp
      then have "cp < 57344" by (simp add: div_less_iff_less_mult)
      then have "cp < 0xD800" using assms(2) by simp
      then have "cp div 64 < 864" by (simp add: less_mult_imp_div_less)
      moreover have "cp div 4096 = cp div 64 div 64" by (simp add: div_mult2_eq)
      then have "cp div 64 = cp div 4096 * 64 + cp div 64 mod 64" by simp
      ultimately show ?thesis using a by simp
    qed
    have "utf8_items (Octet (0xE0 + cp div 4096) # Octet (0x80 + cp div 64 mod 64)
                       # Octet (0x80 + cp mod 64) # its) =
          prepend (utf16_units ((0xE0 + cp div 4096 - 0xE0) * 4096
                     + (0x80 + cp div 64 mod 64 - 0x80) * 64 + (0x80 + cp mod 64 - 0x80)))
            (utf8_items its)"
      using d lo hi by (intro utf8_items_three continuation_mod) auto
    then show ?thesis
      using d by (simp add: o octet_item_high split_4096 del: utf8_items.simps)
  next
    case 4
    then have d: "cp div 262144 < 5" using assms(1) by (simp add: less_mult_imp_div_less)
    have o: "utf8_octets cp = [0xF0 + cp div 262144, 0x80 + cp div 4096 mod 64,
                               0x80 + cp div 64 mod 64, 0x80 + cp mod 64]"
      using 4 by (simp add: utf8_octets_def)
    have "cp div 262144 = cp div 4096 div 64" by (simp add: div_mult2_eq)
    then have e: "cp div 4096 = cp div 262144 * 64 + cp div 4096 mod 64" by simp
    have lo: "cp div 262144 = 0 \<Longrightarrow> 16 \<le> cp div 4096 mod 64"
    proof -
      assume a: "cp div 262144 = 0"
      have "16 \<le> cp div 4096" using 4 by (simp add: less_eq_div_iff_mult_less_eq)
      then show ?thesis using e a by simp
    qed
    have hi: "cp div 262144 = 4 \<Longrightarrow> cp div 4096 mod 64 \<le> 15"
    proof -
      assume a: "cp div 262144 = 4"
      have "cp div 4096 < 272" using assms(1) by (simp add: less_mult_imp_div_less)
      then show ?thesis using e a by simp
    qed
    have "utf8_items (Octet (0xF0 + cp div 262144) # Octet (0x80 + cp div 4096 mod 64)
                       # Octet (0x80 + cp div 64 mod 64) # Octet (0x80 + cp mod 64) # its) =
          prepend (utf16_units ((0xF0 + cp div 262144 - 0xF0) * 262144
                     + (0x80 + cp div 4096 mod 64 - 0x80) * 4096
                     + (0x80 + cp div 64 mod 64 - 0x80) * 64 + (0x80 + cp mod 64 - 0x80)))
            (utf8_items its)"
      using d lo hi by (intro utf8_items_four continuation_mod) auto
    then show ?thesis
      using d by (simp add: o octet_item_high split_262144 del: utf8_items.simps)
  qed
qed


lemma utf16_units_pair:
  assumes "is_high_surrogate c" "is_low_surrogate d"
  shows "utf16_units (pair_code_point c d) = [c, d]"
proof -
  define h where "h = unat c - 0xD800"
  define l where "l = unat d - 0xDC00"
  have h: "unat c = 0xD800 + h" "h < 0x400"
    using assms(1) by (auto simp: h_def is_high_surrogate_def word_cmp)
  have l: "unat d = 0xDC00 + l" "l < 0x400"
    using assms(2) by (auto simp: l_def is_low_surrogate_def word_cmp)
  have cp: "pair_code_point c d = 0x10000 + h * 0x400 + l"
    by (simp add: pair_code_point_def h_def l_def)
  have "(h * 0x400 + l) div 0x400 = h" "(h * 0x400 + l) mod 0x400 = l"
    using l(2) by simp_all
  then have "utf16_units (pair_code_point c d) = [of_nat (unat c), of_nat (unat d)]"
    by (simp add: cp utf16_units_def h(1) l(1))
  then show ?thesis by simp
qed

lemma plain_unit_code_point:
  assumes "\<not> is_high_surrogate c" "\<not> is_low_surrogate c"
  shows "unat c < 0x110000" "\<not> (0xD800 \<le> unat c \<and> unat c \<le> 0xDFFF)"
  using assms unat_lt_65536[of c]
  by (auto simp: is_high_surrogate_def is_low_surrogate_def word_cmp)

text \<open>The octets of a well-formed string are read back as the string.\<close>

lemma utf8_items_usv_octets:
  "well_formed s \<Longrightarrow> utf8_items (map octet_item (usv_octets s)) = Inr s"
proof (induction s rule: well_formed.induct)
  case 1
  then show ?case by simp
next
  case (2 c)
  then have p: "\<not> is_high_surrogate c" "\<not> is_low_surrogate c" by simp_all
  have "utf8_items (map octet_item (utf8_octets (unat c)) @ []) =
        prepend (utf16_units (unat c)) (utf8_items [])"
    using plain_unit_code_point[OF p] by (intro utf8_items_code_point)
  then show ?case
    using p unat_lt_65536[of c]
    by (simp add: usv_octets_plain prepend_def utf16_units_def
        del: utf8_items.simps usv_octets.simps add: utf8_items.simps(1) usv_octets.simps(1))
next
  case (3 c d cs)
  show ?case
  proof (cases "is_high_surrogate c")
    case True
    with 3 have low: "is_low_surrogate d" and wf: "well_formed cs" by simp_all
    have r: "0x10000 \<le> pair_code_point c d" "pair_code_point c d < 0x110000"
      using pair_code_point_range[OF True low] by simp_all
    have "utf8_items (map octet_item (utf8_octets (pair_code_point c d))
                        @ map octet_item (usv_octets cs)) =
          prepend (utf16_units (pair_code_point c d)) (utf8_items (map octet_item (usv_octets cs)))"
      using r by (intro utf8_items_code_point) simp_all
    then show ?thesis
      using 3(1)[OF True wf]
      by (simp add: usv_octets_pair[OF True low] utf16_units_pair[OF True low] prepend_def
          del: utf8_items.simps usv_octets.simps)
  next
    case False
    with 3 have nl: "\<not> is_low_surrogate c" and wf: "well_formed (d # cs)" by simp_all
    have "utf8_items (map octet_item (utf8_octets (unat c))
                        @ map octet_item (usv_octets (d # cs))) =
          prepend (utf16_units (unat c)) (utf8_items (map octet_item (usv_octets (d # cs))))"
      using plain_unit_code_point[OF False nl] by (intro utf8_items_code_point)
    then show ?thesis
      using 3(2)[OF False wf] unat_lt_65536[of c]
      by (simp add: usv_octets_plain[OF False nl] prepend_def utf16_units_def
          del: utf8_items.simps usv_octets.simps)
  qed
qed

lemma decodeURIComponent_escape:
  "well_formed s \<Longrightarrow> decodeURIComponent (escape (map of_nat (usv_octets s))) = Inr s"
  by (simp add: decodeURIComponent_def percent_items_escape usv_octets_bytes
      utf8_items_usv_octets)

subsection \<open>\<open>JSON.parse\<close> after \<open>JSON.stringify\<close>\<close>

lemma map_option_append_Nil [simp]: "map_option ((@) []) x = x"
  by (cases x) simp_all

lemma map_option_append_append:
  "map_option ((@) a) (map_option ((@) b) x) = map_option ((@) (a @ b)) x"
  by (cases x) simp_all

lemma scan_string_literal:
  "c \<noteq> 0x22 \<Longrightarrow> c \<noteq> 0x5C \<Longrightarrow> \<not> c < 0x20 \<Longrightarrow>
   scan (LString acc) (c # r) = scan (LString (c # acc)) r"
  by (simp add: scan_step_def)

lemma scan_string_short_escape:
  "scan (LString acc) (0x5C # 0x62 # r) = scan (LString (0x08 # acc)) r"
  "scan (LString acc) (0x5C # 0x74 # r) = scan (LString (0x09 # acc)) r"
  "scan (LString acc) (0x5C # 0x6E # r) = scan (LString (0x0A # acc)) r"
  "scan (LString acc) (0x5C # 0x66 # r) = scan (LString (0x0C # acc)) r"
  "scan (LString acc) (0x5C # 0x72 # r) = scan (LString (0x0D # acc)) r"
  "scan (LString acc) (0x5C # 0x22 # r) = scan (LString (0x22 # acc)) r"
  "scan (LString acc) (0x5C # 0x5C # r) = scan (LString (0x5C # acc)) r"
  by (simp_all add: scan_step_def)

lemma scan_string_unicode_escape:
  "scan (LString acc) (unicode_escape c @ r) = scan (LString (c # acc)) r"
proof -
  have h: "is_hex (hex_lower (unat c div 4096))" "is_hex (hex_lower (unat c div 256 mod 16))"
    "is_hex (hex_lower (unat c div 16 mod 16))" "is_hex (hex_lower (unat c mod 16))"
    using unat_div_4096[of c] by (simp_all add: is_hex_lower)
  have n: "hex_number [hex_lower (unat c div 4096), hex_lower (unat c div 256 mod 16),
               hex_lower (unat c div 16 mod 16), hex_lower (unat c mod 16)] = unat c"
    using unat_lt_65536[of c] by (rule hex_number4_lower)
  show ?thesis
    by (simp add: unicode_escape_def scan_step_def h n)
qed

lemma scan_string_quote_unit:
  "scan (LString acc) (quote_unit c @ r) = scan (LString (c # acc)) r"
proof -
  consider "c = 0x08" | "c = 0x09" | "c = 0x0A" | "c = 0x0C" | "c = 0x0D" | "c = 0x22"
    | "c = 0x5C"
    | "c \<notin> {0x08, 0x09, 0x0A, 0x0C, 0x0D, 0x22, 0x5C}"
      "c < 0x20 \<or> is_high_surrogate c \<or> is_low_surrogate c"
    | "c \<notin> {0x08, 0x09, 0x0A, 0x0C, 0x0D, 0x22, 0x5C}"
      "\<not> (c < 0x20 \<or> is_high_surrogate c \<or> is_low_surrogate c)"
    by blast
  then show ?thesis
  proof cases
    case 8
    then have "quote_unit c = unicode_escape c" by (simp add: quote_unit_def)
    then show ?thesis by (simp add: scan_string_unicode_escape)
  next
    case 9
    then have "quote_unit c = [c]" by (simp add: quote_unit_def)
    then show ?thesis using 9 by (simp add: scan_string_literal del: scan.simps)
  qed (simp_all add: quote_unit_def scan_string_short_escape del: scan.simps)
qed

lemma surrogate_literal:
  assumes "is_high_surrogate c \<or> is_low_surrogate c"
  shows "c \<noteq> 0x22" "c \<noteq> 0x5C" "\<not> c < 0x20"
  using assms by (auto simp: is_high_surrogate_def is_low_surrogate_def word_cmp)

lemma scan_string_quote_body:
  "scan (LString acc) (quote_body s @ 0x22 # r) =
   map_option ((#) (TString (rev acc @ s))) (scan LStart r)"
proof (induction s arbitrary: acc rule: quote_body.induct)
  case 1
  show ?case by (simp add: scan_step_def) (cases "scan LStart r"; simp)
next
  case (2 c)
  have "scan (LString (c # acc)) (0x22 # r) =
        map_option ((#) (TString (rev (c # acc)))) (scan LStart r)"
    by (simp add: scan_step_def) (cases "scan LStart r"; simp)
  then show ?case by (simp add: scan_string_quote_unit del: scan.simps)
next
  case (3 c d cs)
  show ?case
  proof (cases "is_high_surrogate c \<and> is_low_surrogate d")
    case True
    then have "scan (LString acc) (c # d # quote_body cs @ 0x22 # r) =
               scan (LString (d # c # acc)) (quote_body cs @ 0x22 # r)"
      using surrogate_literal[of c] surrogate_literal[of d]
      by (simp add: scan_string_literal del: scan.simps)
    moreover have "quote_body (c # d # cs) = c # d # quote_body cs" using True by simp
    ultimately show ?thesis
      using 3(1)[OF True, of "d # c # acc"] by (simp del: scan.simps quote_body.simps)
  next
    case False
    then have "quote_body (c # d # cs) = quote_unit c @ quote_body (d # cs)" by auto
    then show ?thesis
      using 3(2)[OF False, of "c # acc"]
      by (simp add: scan_string_quote_unit del: scan.simps quote_body.simps)
  qed
qed

lemma scan_QuoteJSONString:
  "scan LStart (QuoteJSONString s @ r) = map_option ((#) (TString s)) (scan LStart r)"
  using scan_string_quote_body[of "[]" s r]
  by (simp add: QuoteJSONString_def scan_step_def scan_start_def)


lemma join_comma_Cons: "join_comma (q # qs) = q @ concat (map ((#) 0x2C) qs)"
  by (induction qs arbitrary: q) simp_all

lemma scan_comma: "scan LStart (0x2C # r) = map_option ((#) TComma) (scan LStart r)"
  by (simp add: scan_step_def scan_start_def) (cases "scan LStart r"; simp)

lemma scan_more_strings:
  "scan LStart (concat (map (\<lambda>x. 0x2C # QuoteJSONString x) xs) @ r) =
   map_option ((@) (concat (map (\<lambda>s. [TComma, TString s]) xs))) (scan LStart r)"
proof (induction xs)
  case Nil
  show ?case by (simp add: option.map_ident)
next
  case (Cons x xs)
  have "scan LStart (concat (map (\<lambda>x. 0x2C # QuoteJSONString x) (x # xs)) @ r) =
        scan LStart (0x2C # QuoteJSONString x
                      @ (concat (map (\<lambda>x. 0x2C # QuoteJSONString x) xs) @ r))"
    by simp
  also have "\<dots> = map_option ((#) TComma) (map_option ((#) (TString x))
                      (scan LStart (concat (map (\<lambda>x. 0x2C # QuoteJSONString x) xs) @ r)))"
    by (simp only: scan_comma scan_QuoteJSONString)
  also have "\<dots> = map_option ((@) (concat (map (\<lambda>s. [TComma, TString s]) (x # xs))))
                      (scan LStart r)"
    unfolding Cons.IH by (cases "scan LStart r") simp_all
  finally show ?case .
qed

lemma scan_JSON_stringify:
  "scan LStart (JSON_stringify xs) =
   Some (TLBracket # (case xs of [] \<Rightarrow> []
                      | x # xs' \<Rightarrow> TString x # concat (map (\<lambda>s. [TComma, TString s]) xs'))
           @ [TRBracket])"
proof -
  have close: "scan LStart [0x5D] = Some [TRBracket]"
    by (simp add: scan_step_def scan_start_def scan_finish_def)
  have open_bracket: "scan LStart (0x5B # r) = map_option ((#) TLBracket) (scan LStart r)" for r
    by (simp add: scan_step_def scan_start_def) (cases "scan LStart r"; simp)
  show ?thesis
  proof (cases xs)
    case Nil
    then show ?thesis by (simp add: JSON_stringify_def open_bracket close del: scan.simps)
  next
    case (Cons x xs')
    have "scan LStart (QuoteJSONString x
            @ (concat (map (\<lambda>x. 0x2C # QuoteJSONString x) xs') @ [0x5D])) =
          Some (TString x # concat (map (\<lambda>s. [TComma, TString s]) xs') @ [TRBracket])"
      by (simp only: scan_QuoteJSONString scan_more_strings close) simp
    then show ?thesis
      using Cons
      by (simp add: JSON_stringify_def join_comma_Cons open_bracket comp_def
          del: scan.simps join_comma.simps)
  qed
qed

lemma parse_more_strings:
  "parse_tokens (EAfterValue, FArray acc # fs)
     (concat (map (\<lambda>s. [TComma, TString s]) xs) @ toks) =
   parse_tokens (EAfterValue, FArray (rev (map JString xs) @ acc) # fs) toks"
  by (induction xs arbitrary: acc)
    (simp_all add: parse_step_def value_start_def complete_value_def)

lemma parse_string_array:
  "parse_tokens (EValue, [])
     (TLBracket # (case xs of [] \<Rightarrow> []
                   | x # xs' \<Rightarrow> TString x # concat (map (\<lambda>s. [TComma, TString s]) xs'))
        @ [TRBracket]) =
   Some (EDone (JArray (map JString xs)), [])"
proof (cases xs)
  case Nil
  then show ?thesis
    by (simp add: parse_step_def value_start_def complete_value_def close_array_def)
next
  case (Cons x xs')
  have "parse_tokens (EAfterValue, [FArray [JString x]])
          (concat (map (\<lambda>s. [TComma, TString s]) xs') @ [TRBracket]) =
        parse_tokens (EAfterValue, [FArray (rev (map JString xs') @ [JString x])]) [TRBracket]"
    by (rule parse_more_strings)
  then show ?thesis
    using Cons
    by (simp add: parse_step_def value_start_def complete_value_def close_array_def)
qed

text \<open>\<open>JSON.parse\<close> reads back the array of strings that \<open>JSON.stringify\<close> wrote.\<close>

lemma JSON_parse_JSON_stringify:
  "JSON_parse (JSON_stringify xs) = Inr (JArray (map JString xs))"
  by (simp add: JSON_parse_def scan_JSON_stringify parse_string_array del: parse_tokens.simps)

section \<open>Properties of the starred set and its persistence\<close>

lemma set_foldl_Set_add: "set (foldl (\<lambda>s x. Set_add x s) acc xs) = set acc \<union> set xs"
  by (induction xs arbitrary: acc) auto

lemma set_new_Set: "set (new_Set xs) = set xs"
  by (simp add: new_Set_def set_foldl_Set_add)

lemma writeHash_returns: "\<exists>h. writeHash ids = Inr h"
  using encodeStarred_returns[of ids] by (auto simp: writeHash_def)

text \<open>\<open>persist\<close> returns: the store is written (when it accepts the write) and the hash set.\<close>

lemma persist_returns:
  "\<exists>h. writeHash (starred st) = Inr h \<and>
       persist st = Inr (st\<lparr>localStorage := saveStarredToLS (starred st) (localStorage st),
                            location_hash := h\<rparr>)"
  using writeHash_returns[of "starred st"] by (auto simp: persist_def)

lemma toggleStar_returns:
  "\<exists>h. toggleStar x st =
         Inr (st\<lparr>starred := (if x \<in> set (starred st) then removeAll x (starred st)
                               else starred st @ [x]),
                  localStorage :=
                    saveStarredToLS (if x \<in> set (starred st) then removeAll x (starred st)
                                     else starred st @ [x]) (localStorage st),
                  location_hash := h\<rparr>)
       \<and> writeHash (if x \<in> set (starred st) then removeAll x (starred st)
                      else starred st @ [x]) = Inr h"
proof (cases "x \<in> set (starred st)")
  case True
  then show ?thesis
    using persist_returns[of "st\<lparr>starred := removeAll x (starred st)\<rparr>"]
    by (auto simp: toggleStar_def Set_has_def Set_delete_def)
next
  case False
  then show ?thesis
    using persist_returns[of "st\<lparr>starred := starred st @ [x]\<rparr>"]
    by (auto simp: toggleStar_def Set_has_def Set_add_def)
qed

text \<open>
  C10. For every state of the starred set and every identifier \<open>id\<close>, \<open>toggle(id)\<close>
  changes only the membership of \<open>id\<close> (removing it if present, adding it if absent) and
  leaves the membership of every other identifier unchanged.
\<close>

theorem toggleStar_changes_only_its_id:
  "\<exists>st'. toggleStar x st = Inr st'
     \<and> (Set_has (starred st') x \<longleftrightarrow> \<not> Set_has (starred st) x)
     \<and> (\<forall>y. y \<noteq> x \<longrightarrow> Set_has (starred st') y = Set_has (starred st) y)"
  using toggleStar_returns[of x st] by (auto simp: Set_has_def)

theorem toggleStar_changes_only_its_id_witness:
  "\<exists>st'. toggleStar (js ''b'')
           \<lparr>starred = [js ''a'', js ''b''],
            localStorage = \<lparr>items = Map.empty, getItem_raises = False, setItem_raises = False\<rparr>,
            location_hash = []\<rparr> = Inr st'
     \<and> \<not> Set_has (starred st') (js ''b'') \<and> Set_has (starred st') (js ''a'')"
proof -
  have ne: "js ''a'' \<noteq> js ''b''" by (simp add: js_def)
  from toggleStar_changes_only_its_id
    [of "js ''b''"
        "\<lparr>starred = [js ''a'', js ''b''],
          localStorage = \<lparr>items = Map.empty, getItem_raises = False, setItem_raises = False\<rparr>,
          location_hash = []\<rparr>"]
  show ?thesis using ne by (auto simp: Set_has_def)
qed

text \<open>
  C8. For every identifier \<open>x\<close>, calling \<open>toggle(x)\<close> twice in succession, starting from
  the empty starred set, returns the set to empty, and the persistence of the second call
  clears the link encoding: the URL is left without a fragment, where the first call had
  written one.
\<close>

theorem toggle_twice_restores_empty:
  "\<exists>st1 st2. toggleStar x (st\<lparr>starred := []\<rparr>) = Inr st1 \<and> toggleStar x st1 = Inr st2
     \<and> starred st1 = [x] \<and> location_hash st1 \<noteq> []
     \<and> starred st2 = [] \<and> location_hash st2 = []"
proof -
  obtain h1 where 1: "toggleStar x (st\<lparr>starred := []\<rparr>) =
      Inr (st\<lparr>starred := [x], localStorage := saveStarredToLS [x] (localStorage st),
              location_hash := h1\<rparr>)" and h1: "writeHash [x] = Inr h1"
    using toggleStar_returns[of x "st\<lparr>starred := []\<rparr>"] by auto
  let ?st1 = "st\<lparr>starred := [x], localStorage := saveStarredToLS [x] (localStorage st),
              location_hash := h1\<rparr>"
  obtain h2 where 2: "toggleStar x ?st1 =
      Inr (?st1\<lparr>starred := [], localStorage := saveStarredToLS [] (localStorage ?st1),
              location_hash := h2\<rparr>)" and h2: "writeHash [] = Inr h2"
    using toggleStar_returns[of x ?st1] by auto
  from h2 have "h2 = []" by (simp add: writeHash_def)
  moreover from h1 have "h1 \<noteq> []"
    by (auto simp: writeHash_def js_def split: sum.splits)
  ultimately show ?thesis using 1 2 by auto
qed

subsection \<open>What is written to the store\<close>

lemma sort_b_a: "sort [js ''b'', js ''a''] = [js ''a'', js ''b'']"
  by (simp add: js_def)

lemma JSON_stringify_a_b: "JSON_stringify [js ''a'', js ''b''] = js ''[\"a\",\"b\"]''"
  by (simp add: JSON_stringify_def QuoteJSONString_def quote_unit_def js_def
      is_high_surrogate_def is_low_surrogate_def)

lemma JSON_stringify_b_a: "JSON_stringify [js ''b'', js ''a''] = js ''[\"b\",\"a\"]''"
  by (simp add: JSON_stringify_def QuoteJSONString_def quote_unit_def js_def
      is_high_surrogate_def is_low_surrogate_def)

lemma encodeStarred_b_a: "encodeStarred [js ''b'', js ''a''] = Inr (js ''WyJhIiwiYiJd'')"
proof -
  have octets: "usv_octets (js ''[\"a\",\"b\"]'') = [91, 34, 97, 34, 44, 34, 98, 34, 93]"
    by (simp add: js_def is_high_surrogate_def is_low_surrogate_def utf8_octets_def)
  have b64: "b64_encode [91, 34, 97, 34, 44, 34, 98, 34, 93] = js ''WyJhIiwiYiJd''"
    by (simp add: b64_encode_def b64_char_def js_def)
  have safe: "strip_trailing_eq (replace_all 0x2F 0x5F (replace_all 0x2B 0x2D
                (js ''WyJhIiwiYiJd''))) = js ''WyJhIiwiYiJd''"
    by (simp add: replace_all_def strip_trailing_eq_def js_def)
  have "encodeStarred [js ''b'', js ''a''] =
        Inr (strip_trailing_eq (replace_all 0x2F 0x5F (replace_all 0x2B 0x2D
               (b64_encode (usv_octets (JSON_stringify (sort [js ''b'', js ''a''])))))))"
    by (rule encodeStarred_value) simp
  then show ?thesis
    by (simp only: sort_b_a JSON_stringify_a_b octets b64 safe)
qed

text \<open>
  C2, as the claim states it, fails: \<open>saveStarredToLS\<close> writes the members in the order of
  the set, which is the order of insertion; only \<open>encodeStarred\<close> sorts. With \<open>b\<close> starred
  first and \<open>a\<close> second, the store holds \<open>["b","a"]\<close> while the sorted array is
  \<open>["a","b"]\<close> (and the link holds the encoding of the sorted array).
\<close>

theorem store_not_sorted_counterexample:
  "toggleStar (js ''a'')
     \<lparr>starred = [js ''b''],
      localStorage = \<lparr>items = Map.empty, getItem_raises = False, setItem_raises = False\<rparr>,
      location_hash = []\<rparr>
   = Inr \<lparr>starred = [js ''b'', js ''a''],
          localStorage = \<lparr>items = [LS_KEY \<mapsto> js ''[\"b\",\"a\"]''], getItem_raises = False,
                           setItem_raises = False\<rparr>,
          location_hash = js ''#a=WyJhIiwiYiJd''\<rparr>
   \<and> JSON_stringify (sort [js ''b'', js ''a'']) = js ''[\"a\",\"b\"]''
   \<and> js ''[\"b\",\"a\"]'' \<noteq> js ''[\"a\",\"b\"]''"
proof -
  have ne: "js ''a'' \<noteq> js ''b''" "js ''[\"b\",\"a\"]'' \<noteq> js ''[\"a\",\"b\"]''"
    by (simp_all add: js_def)
  have h: "js ''#'' @ HASH_PARAM @ js ''='' @ js ''WyJhIiwiYiJd'' = js ''#a=WyJhIiwiYiJd''"
    by (simp add: js_def HASH_PARAM_def)
  have s: "JSON_stringify (sort [js ''b'', js ''a'']) = js ''[\"a\",\"b\"]''"
    by (simp only: sort_b_a JSON_stringify_a_b)
  have "toggleStar (js ''a'')
     \<lparr>starred = [js ''b''],
      localStorage = \<lparr>items = Map.empty, getItem_raises = False, setItem_raises = False\<rparr>,
      location_hash = []\<rparr>
   = Inr \<lparr>starred = [js ''b'', js ''a''],
          localStorage = \<lparr>items = [LS_KEY \<mapsto> js ''[\"b\",\"a\"]''], getItem_raises = False,
                           setItem_raises = False\<rparr>,
          location_hash = js ''#a=WyJhIiwiYiJd''\<rparr>"
    using ne
    by (simp add: toggleStar_def Set_has_def Set_add_def persist_def writeHash_def
        encodeStarred_b_a saveStarredToLS_def JSON_stringify_b_a h)
  then show ?thesis using s ne by simp
qed

text \<open>
  C2 (amended). For every starred set and every mutation (toggle, or a confirmed clear),
  the value written to the persistent-storage slot, when the store accepts the write, is
  the JSON array of the starred identifiers in the order of the set: the order in which
  they were starred, a new one last.
\<close>

theorem store_holds_insertion_order:
  "\<not> setItem_raises (localStorage st) \<longrightarrow>
     (\<exists>st'. toggleStar x st = Inr st'
        \<and> starred st' = (if Set_has (starred st) x then Set_delete x (starred st)
                          else Set_add x (starred st))
        \<and> items (localStorage st') LS_KEY = Some (JSON_stringify (starred st')))
     \<and> (\<exists>st'. resetAgenda True st = Inr st' \<and> starred st' = []
        \<and> items (localStorage st') LS_KEY = Some (JSON_stringify (starred st')))"
proof
  assume w: "\<not> setItem_raises (localStorage st)"
  have t: "\<exists>st'. toggleStar x st = Inr st'
        \<and> starred st' = (if Set_has (starred st) x then Set_delete x (starred st)
                          else Set_add x (starred st))
        \<and> items (localStorage st') LS_KEY = Some (JSON_stringify (starred st'))"
    using toggleStar_returns[of x st] w
    by (auto simp: Set_has_def Set_delete_def Set_add_def saveStarredToLS_def)
  have r: "\<exists>st'. resetAgenda True st = Inr st' \<and> starred st' = []
        \<and> items (localStorage st') LS_KEY = Some (JSON_stringify (starred st'))"
    using persist_returns[of "st\<lparr>starred := []\<rparr>"] w
    by (auto simp: resetAgenda_def saveStarredToLS_def)
  from t r show "(\<exists>st'. toggleStar x st = Inr st'
        \<and> starred st' = (if Set_has (starred st) x then Set_delete x (starred st)
                          else Set_add x (starred st))
        \<and> items (localStorage st') LS_KEY = Some (JSON_stringify (starred st')))
     \<and> (\<exists>st'. resetAgenda True st = Inr st' \<and> starred st' = []
        \<and> items (localStorage st') LS_KEY = Some (JSON_stringify (starred st')))"
    by blast
qed

theorem store_holds_insertion_order_witness:
  "\<exists>st'. toggleStar (js ''a'')
       \<lparr>starred = [js ''b''],
        localStorage = \<lparr>items = Map.empty, getItem_raises = False, setItem_raises = False\<rparr>,
        location_hash = []\<rparr> = Inr st'
      \<and> starred st' = [js ''b'', js ''a'']
      \<and> items (localStorage st') LS_KEY = Some (js ''[\"b\",\"a\"]'')"
proof -
  have ne: "js ''a'' \<noteq> js ''b''" by (simp add: js_def)
  from store_holds_insertion_order
    [of "\<lparr>starred = [js ''b''],
          localStorage = \<lparr>items = Map.empty, getItem_raises = False, setItem_raises = False\<rparr>,
          location_hash = []\<rparr>" "js ''a''"]
  show ?thesis using ne by (auto simp: Set_has_def Set_add_def JSON_stringify_b_a)
qed

subsection \<open>The round trip of the link encoding\<close>

lemma utf8_octets_nonempty: "utf8_octets cp \<noteq> []"
  by (simp add: utf8_octets_def)

lemma usv_octets_nonempty: "s \<noteq> [] \<Longrightarrow> usv_octets s \<noteq> []"
  by (cases s rule: usv_octets.cases) (auto simp: utf8_octets_nonempty split: list.splits)

lemma decodeStarred_encodeStarred:
  assumes "ids \<noteq> []"
  shows "\<exists>encoded. encodeStarred ids = Inr encoded
           \<and> decodeStarred encoded = map JString (sort ids)"
proof -
  let ?json = "JSON_stringify (sort ids)"
  let ?octets = "usv_octets ?json"
  let ?encoded = "strip_trailing_eq (replace_all 0x2F 0x5F (replace_all 0x2B 0x2D
                    (b64_encode ?octets)))"
  have enc: "encodeStarred ids = Inr ?encoded"
    using assms by (rule encodeStarred_value)
  have bytes: "list_all (\<lambda>b. b < 256) ?octets" by (rule usv_octets_bytes)
  have "?json \<noteq> []" by (simp add: JSON_stringify_def)
  then have "?octets \<noteq> []" by (rule usv_octets_nonempty)
  then have ne: "?encoded \<noteq> []" using bytes by (intro url_safe_b64_encode_nonempty)
  have 1: "atob (replace_all 0x5F 0x2F (replace_all 0x2D 0x2B ?encoded)) = Inr (map of_nat ?octets)"
    using bytes by (rule atob_url_safe_b64_encode)
  have 2: "decodeURIComponent (escape (map of_nat ?octets)) = Inr ?json"
    using well_formed_JSON_stringify by (rule decodeURIComponent_escape)
  have 3: "JSON_parse ?json = Inr (JArray (map JString (sort ids)))"
    by (rule JSON_parse_JSON_stringify)
  have "decodeStarred ?encoded = map JString (sort ids)"
    using ne by (simp add: decodeStarred_def decodeStarred_try_def 1 2 3 Array_isArray_def
        elements_def)
  with enc show ?thesis by blast
qed

text \<open>
  C6. For every non-empty set of identifier strings, decoding the link encoding of the set
  yields exactly the sorted list of its distinct members
  (\<open>decode(encode(ids)) == sorted(unique(ids))\<close>). Encoding the empty set yields the
  empty string, and writing an empty set clears the link slot (no fragment is left) rather
  than writing an encoding of an empty array. The array passed to \<open>encodeStarred\<close> is that
  of the members of a set: for it, \<open>distinct\<close> holds and the sorted array is the sorted
  list of the set.
\<close>

theorem link_encoding_round_trip:
  "(ids \<noteq> [] \<longrightarrow>
      (\<exists>encoded. encodeStarred ids = Inr encoded
         \<and> decodeStarred encoded = map JString (sort ids))
      \<and> (distinct ids \<longrightarrow> sort ids = sorted_list_of_set (set ids)))
   \<and> encodeStarred [] = Inr []
   \<and> writeHash [] = Inr []"
proof -
  have "distinct ids \<Longrightarrow> sort ids = sorted_list_of_set (set ids)"
    by (simp add: sorted_list_of_set_sort_remdups distinct_remdups_id)
  then show ?thesis
    using decodeStarred_encodeStarred[of ids]
    by (auto simp: encodeStarred_def writeHash_def)
qed

theorem link_encoding_round_trip_witness:
  "encodeStarred [js ''b'', js ''a''] = Inr (js ''WyJhIiwiYiJd'')
   \<and> decodeStarred (js ''WyJhIiwiYiJd'') = [JString (js ''a''), JString (js ''b'')]"
proof -
  have "\<exists>encoded. encodeStarred [js ''b'', js ''a''] = Inr encoded
         \<and> decodeStarred encoded = map JString (sort [js ''b'', js ''a''])"
    using link_encoding_round_trip[of "[js ''b'', js ''a'']"] by simp
  then show ?thesis
    by (simp only: encodeStarred_b_a sort_b_a) simp
qed

section \<open>Properties of decoding and of the initialisation\<close>

subsection \<open>The decoders on small inputs\<close>

lemma URLSearchParams_example:
  "URLSearchParams (js ''a=WyJ4Il0'') = [(js ''a'', js ''WyJ4Il0'')]"
proof -
  have "usv_octets (js ''a=WyJ4Il0'') = [97, 61, 87, 121, 74, 52, 73, 108, 48]"
    by (simp add: js_def is_high_surrogate_def is_low_surrogate_def utf8_octets_def)
  then show ?thesis
    unfolding URLSearchParams_def Let_def
    by (simp add: js_def del: usv_octets.simps)
      (simp add: form_decode_def utf8_lead_def utf16_units_def)
qed

lemma atob_example: "atob (js ''WyJ4Il0'') = Inr (js ''[\"x\"]'')"
  by (simp add: atob_def js_def is_ascii_whitespace_def b64_value_def)

lemma escape_example: "escape (js ''[\"x\"]'') = js ''%5B%22x%22%5D''"
  by (simp add: escape_def escape_unit_def escape_unreserved_def is_alnum_def js_def
      percent_octet_def hex_upper_def)

lemma decodeURIComponent_example:
  "decodeURIComponent (js ''%5B%22x%22%5D'') = Inr (js ''[\"x\"]'')"
  by (simp add: decodeURIComponent_def js_def is_hex_def hex_value_def digit_in_def
      hex_number_def prepend_def)

lemmas JSON_parse_eval =
  JSON_parse_def js_def scan_step_def scan_start_def scan_finish_def parse_step_def
  value_start_def complete_value_def close_array_def

lemma JSON_parse_example: "JSON_parse (js ''[\"x\"]'') = Inr (JArray [JString (js ''x'')])"
  by (simp add: JSON_parse_eval)

lemma JSON_parse_truncated: "JSON_parse (js ''[\"x\"'') = Inl SyntaxError"
  by (simp add: JSON_parse_eval)

lemma decodeStarred_example: "decodeStarred (js ''WyJ4Il0'') = [JString (js ''x'')]"
proof -
  have "replace_all 0x5F 0x2F (replace_all 0x2D 0x2B (js ''WyJ4Il0'')) = js ''WyJ4Il0''"
    by (simp add: replace_all_def js_def)
  moreover have "js ''WyJ4Il0'' \<noteq> []" by (simp add: js_def)
  ultimately show ?thesis
    by (simp add: decodeStarred_def decodeStarred_try_def atob_example escape_example
        decodeURIComponent_example JSON_parse_example Array_isArray_def elements_def)
qed

lemma readHashStarred_example: "readHashStarred (js ''#a=WyJ4Il0'') = Some [JString (js ''x'')]"
proof -
  have "drop 1 (js ''#a=WyJ4Il0'') = js ''a=WyJ4Il0''" by (simp add: js_def)
  moreover have "js ''a=WyJ4Il0'' \<noteq> []" "js ''WyJ4Il0'' \<noteq> []" by (simp_all add: js_def)
  ultimately show ?thesis
    by (simp add: readHashStarred_def URLSearchParams_example params_get_def HASH_PARAM_def
        decodeStarred_example)
qed

lemma readHashStarred_no_hash: "readHashStarred [] = None"
  by (simp add: readHashStarred_def)

lemma loadStarredFromLS_example:
  "loadStarredFromLS \<lparr>items = [LS_KEY \<mapsto> js ''[\"x\"]''], getItem_raises = False,
                       setItem_raises = False\<rparr> = [JString (js ''x'')]"
proof -
  have "js ''[\"x\"]'' \<noteq> []" by (simp add: js_def)
  then show ?thesis
    by (simp add: loadStarredFromLS_def loadStarredFromLS_try_def JSON_parse_example
        Array_isArray_def elements_def)
qed

subsection \<open>Reconciliation at startup\<close>

lemma identifiers_strings: "identifiers arr = Some ids \<Longrightarrow> arr = map JString ids"
proof (induction arr arbitrary: ids rule: identifiers.induct)
  case 1
  then show ?case by simp
next
  case (2 s vs)
  then show ?case by (cases "identifiers vs") auto
qed simp_all

text \<open>
  C1. At startup, if the shareable-link encoding is present and decodes to a non-empty
  set of identifiers, that set becomes the canonical starred set and is immediately written
  to persistent storage (when the store accepts the write), which then decodes to the array
  of the link. Otherwise, the link being
  absent, present but empty, or failing to decode, the canonical set is whatever persistent
  storage decodes to, and the store is left as it is: it is never overwritten with an empty
  set from the link. The last part says when the link yields nothing: the fragment is
  empty, or it has no parameter \<open>a\<close>, or the parameter decodes to the empty array, as it
  does when it is empty and when decoding fails.
\<close>

theorem init_link_wins_else_storage:
  "(readHashStarred (location_hash st) = Some arr \<and> arr \<noteq> [] \<and> identifiers arr = Some ids
      \<longrightarrow> init st = Some (st\<lparr>starred := new_Set ids,
                              localStorage := saveStarredToLS ids (localStorage st)\<rparr>)
          \<and> set (new_Set ids) = set ids
          \<and> (\<not> setItem_raises (localStorage st)
               \<longrightarrow> items (saveStarredToLS ids (localStorage st)) LS_KEY = Some (JSON_stringify ids)
                   \<and> (\<not> getItem_raises (localStorage st)
                        \<longrightarrow> loadStarredFromLS (saveStarredToLS ids (localStorage st)) = arr)))
   \<and> ((readHashStarred (location_hash st) = None \<or> readHashStarred (location_hash st) = Some [])
        \<and> identifiers (loadStarredFromLS (localStorage st)) = Some stored
      \<longrightarrow> init st = Some (st\<lparr>starred := new_Set stored\<rparr>)
          \<and> set (new_Set stored) = set stored
          \<and> localStorage (st\<lparr>starred := new_Set stored\<rparr>) = localStorage st)
   \<and> ((readHashStarred (location_hash st) = None \<or> readHashStarred (location_hash st) = Some [])
        \<longleftrightarrow> (drop 1 (location_hash st) = []
             \<or> (case params_get (URLSearchParams (drop 1 (location_hash st))) HASH_PARAM of
                   None \<Rightarrow> True
                 | Some encoded \<Rightarrow> decodeStarred encoded = [])))"
proof -
  have "decodeStarred [] = []" by (simp add: decodeStarred_def)
  moreover have "loadStarredFromLS (saveStarredToLS ids (localStorage st)) = arr"
    if "identifiers arr = Some ids" "\<not> setItem_raises (localStorage st)"
      "\<not> getItem_raises (localStorage st)"
  proof -
    have "JSON_stringify ids \<noteq> []" by (simp add: JSON_stringify_def)
    then show ?thesis
      using that identifiers_strings[OF that(1)]
      by (simp add: loadStarredFromLS_def loadStarredFromLS_try_def saveStarredToLS_def
          JSON_parse_JSON_stringify Array_isArray_def elements_def)
  qed
  ultimately show ?thesis
    by (auto simp: init_def set_new_Set saveStarredToLS_def readHashStarred_def Let_def
        split: option.splits if_splits)
qed

theorem init_link_wins_else_storage_witness:
  "map_option starred
     (init \<lparr>starred = [],
            localStorage = \<lparr>items = Map.empty, getItem_raises = False, setItem_raises = False\<rparr>,
            location_hash = js ''#a=WyJ4Il0''\<rparr>) = Some [js ''x'']
   \<and> map_option (\<lambda>st. items (localStorage st) LS_KEY)
     (init \<lparr>starred = [],
            localStorage = \<lparr>items = Map.empty, getItem_raises = False, setItem_raises = False\<rparr>,
            location_hash = js ''#a=WyJ4Il0''\<rparr>) = Some (Some (js ''[\"x\"]''))
   \<and> init \<lparr>starred = [],
           localStorage = \<lparr>items = [LS_KEY \<mapsto> js ''[\"x\"]''], getItem_raises = False,
                            setItem_raises = False\<rparr>,
           location_hash = []\<rparr>
       = Some \<lparr>starred = [js ''x''],
           localStorage = \<lparr>items = [LS_KEY \<mapsto> js ''[\"x\"]''], getItem_raises = False,
                            setItem_raises = False\<rparr>,
           location_hash = []\<rparr>"
proof -
  have stringify: "JSON_stringify [js ''x''] = js ''[\"x\"]''"
    by (simp add: JSON_stringify_def QuoteJSONString_def quote_unit_def js_def
        is_high_surrogate_def is_low_surrogate_def)
  have new: "new_Set [js ''x''] = [js ''x'']" by (simp add: new_Set_def Set_add_def)
  show ?thesis
    using init_link_wins_else_storage
            [THEN conjunct1, rule_format,
              of "\<lparr>starred = [],
                   localStorage = \<lparr>items = Map.empty, getItem_raises = False,
                                    setItem_raises = False\<rparr>,
                   location_hash = js ''#a=WyJ4Il0''\<rparr>"
                 "[JString (js ''x'')]" "[js ''x'']"]
          init_link_wins_else_storage
            [THEN conjunct2, THEN conjunct1, rule_format,
              of "\<lparr>starred = [],
                   localStorage = \<lparr>items = [LS_KEY \<mapsto> js ''[\"x\"]''], getItem_raises = False,
                                    setItem_raises = False\<rparr>,
                   location_hash = []\<rparr>"
                 "[js ''x'']"]
    by (simp add: readHashStarred_example loadStarredFromLS_example readHashStarred_no_hash new
        stringify saveStarredToLS_def)
qed

subsection \<open>Decoding is defensive\<close>

text \<open>
  C7. For every input string, decoding a link or a stored payload never raises an error:
  whatever the body of the \<open>try\<close> raises is caught, and any malformed input (a bad base64
  alphabet, invalid UTF-8, invalid JSON, JSON that is not an array) yields the empty
  result. In particular, when no link supplies a set, initialisation with a malformed stored
  payload yields an empty starred set.
\<close>

theorem decoding_never_raises:
  "decodeStarred encoded = (case decodeStarred_try encoded of Inl e \<Rightarrow> [] | Inr arr \<Rightarrow> arr)
   \<and> (atob (replace_all 0x5F 0x2F (replace_all 0x2D 0x2B encoded)) = Inl e
        \<longrightarrow> decodeStarred encoded = [])
   \<and> (atob (replace_all 0x5F 0x2F (replace_all 0x2D 0x2B encoded)) = Inr bin
        \<and> decodeURIComponent (escape bin) = Inl e
        \<longrightarrow> decodeStarred encoded = [])
   \<and> (atob (replace_all 0x5F 0x2F (replace_all 0x2D 0x2B encoded)) = Inr bin
        \<and> decodeURIComponent (escape bin) = Inr json \<and> JSON_parse json = Inl e
        \<longrightarrow> decodeStarred encoded = [])
   \<and> (atob (replace_all 0x5F 0x2F (replace_all 0x2D 0x2B encoded)) = Inr bin
        \<and> decodeURIComponent (escape bin) = Inr json \<and> JSON_parse json = Inr v
        \<and> \<not> Array_isArray v
        \<longrightarrow> decodeStarred encoded = [])
   \<and> loadStarredFromLS ls = (case loadStarredFromLS_try ls of Inl e \<Rightarrow> [] | Inr arr \<Rightarrow> arr)
   \<and> (getItem_raises ls \<longrightarrow> loadStarredFromLS ls = [])
   \<and> (items ls LS_KEY = Some raw \<and> JSON_parse raw = Inl e \<longrightarrow> loadStarredFromLS ls = [])
   \<and> (items ls LS_KEY = Some raw \<and> JSON_parse raw = Inr v \<and> \<not> Array_isArray v
        \<longrightarrow> loadStarredFromLS ls = [])
   \<and> ((readHashStarred (location_hash st) = None \<or> readHashStarred (location_hash st) = Some [])
        \<and> items (localStorage st) LS_KEY = Some raw
        \<and> (JSON_parse raw = Inl e \<or> JSON_parse raw = Inr v \<and> \<not> Array_isArray v)
        \<longrightarrow> init st = Some (st\<lparr>starred := []\<rparr>))"
proof -
  have empty: "decodeStarred_try [] = Inl SyntaxError"
    by (simp add: decodeStarred_try_def replace_all_def atob_def strip_padding_def escape_def
        decodeURIComponent_def JSON_parse_def scan_finish_def)
  have caught: "decodeStarred encoded =
      (case decodeStarred_try encoded of Inl e \<Rightarrow> [] | Inr arr \<Rightarrow> arr)"
    using empty by (simp add: decodeStarred_def)
  have ls: "items ls LS_KEY = Some raw \<Longrightarrow>
            JSON_parse raw = Inl e \<or> JSON_parse raw = Inr v \<and> \<not> Array_isArray v \<Longrightarrow>
            loadStarredFromLS ls = []" for ls
    by (auto simp: loadStarredFromLS_def loadStarredFromLS_try_def)
  have new: "new_Set ([] :: jsstring list) = []" by (simp add: new_Set_def)
  show ?thesis
    using caught ls
    by (auto simp: decodeStarred_try_def decodeStarred_def loadStarredFromLS_def
        loadStarredFromLS_try_def init_def new)
qed

theorem decoding_never_raises_witness:
  "decodeStarred (js ''!'') = []
   \<and> init \<lparr>starred = [],
           localStorage = \<lparr>items = [LS_KEY \<mapsto> js ''[\"x\"''], getItem_raises = False,
                            setItem_raises = False\<rparr>,
           location_hash = []\<rparr>
       = Some \<lparr>starred = [],
           localStorage = \<lparr>items = [LS_KEY \<mapsto> js ''[\"x\"''], getItem_raises = False,
                            setItem_raises = False\<rparr>,
           location_hash = []\<rparr>"
proof -
  have bad: "atob (replace_all 0x5F 0x2F (replace_all 0x2D 0x2B (js ''!'')))
             = Inl InvalidCharacterError"
    by (simp add: atob_def replace_all_def js_def is_ascii_whitespace_def)
  show ?thesis
    using decoding_never_raises
            [THEN conjunct2, THEN conjunct1, rule_format, of "js ''!''" InvalidCharacterError]
          decoding_never_raises
            [THEN conjunct2, THEN conjunct2, THEN conjunct2, THEN conjunct2, THEN conjunct2,
              THEN conjunct2, THEN conjunct2, THEN conjunct2, THEN conjunct2, rule_format,
              of "\<lparr>starred = [],
                   localStorage = \<lparr>items = [LS_KEY \<mapsto> js ''[\"x\"''], getItem_raises = False,
                                    setItem_raises = False\<rparr>,
                   location_hash = []\<rparr>"
                 "js ''[\"x\"''" SyntaxError]
    by (simp add: bad readHashStarred_no_hash JSON_parse_truncated)
qed

end
